theory Spec2Isabelle
  imports Main "HOL-Library.AList" "HOL-Library.Char_ord" "HOL-Library.List_Lexorder"
begin

section \<open>Thornbury Picture House showtimes monitor\<close>

text \<open>
  A shallow embedding of the monitor scripts. The rolling-window script (the one with
  \<^verbatim>\<open>primeCookies\<close>, \<^verbatim>\<open>getAllShowtimesRollingMonth\<close> and
  \<^verbatim>\<open>filterPastShowtimes\<close>) keeps the plain names of its functions. Functions of the
  other scripts carry a suffix: \<open>_single\<close> for the script that primes one cookie
  header, sends one GraphQL query and stores formatted strings
  (\<^verbatim>\<open>getAllShowtimesViaGraphQL\<close>), and \<open>_basic\<close> for the script that sends
  one GraphQL query with no session at all (\<^verbatim>\<open>getAllShowtimes\<close>).

  Conventions of the model:
  \<^item> A JavaScript object used as a dictionary, and a \<^verbatim>\<open>Map\<close>, is an association
    list; \<^verbatim>\<open>obj[k]\<close> is \<open>map_of obj k\<close> and \<^verbatim>\<open>obj[k] = v\<close> is
    \<open>AList.update k v obj\<close>, which overwrites in place or appends, as property
    insertion does. Titles are assumed not to collide with property names inherited
    from \<^verbatim>\<open>Object.prototype\<close>, and no theorem depends on the order of entries.
  \<^item> \<^verbatim>\<open>new Date(s).getTime()\<close> belongs to the runtime; it is the parameter
    \<open>getTime\<close>, with \<open>None\<close> for \<^verbatim>\<open>NaN\<close>.
  \<^item> \<^verbatim>\<open>Date.now()\<close> is read afresh at every call. The model threads the number of
    readings taken so far and takes the readings as a function \<open>clock\<close>: the
    \<open>k\<close>-th reading is \<open>clock k\<close>.
  \<^item> A \<^verbatim>\<open>Date\<close> object that the script computes with is its time value, an
    integer number of milliseconds since the epoch. The rules of the time zone belong
    to the runtime; they are the parameter \<open>tzOffset\<close>, the offset of local time
    from UTC at an instant.
  \<^item> A thrown \<^verbatim>\<open>Error\<close> is the \<open>Inl\<close> of a sum.
\<close>

subsection \<open>Schedules and the future-only filter\<close>

type_synonym schedule = "(string \<times> string list) list"

type_synonym clock = "nat \<Rightarrow> int"

text \<open>
  \<^verbatim>\<open>
  function isPastShowtime(isoString) {
    const t = new Date(isoString).getTime();
    if (!Number.isFinite(t)) return false;
    return t < Date.now();
  }
  \<close>
  The clock is read only when the string parses.
\<close>

definition isPastShowtime ::
  "(string \<Rightarrow> int option) \<Rightarrow> clock \<Rightarrow> string \<Rightarrow> nat \<Rightarrow> bool \<times> nat" where
  "isPastShowtime getTime clock isoString n =
     (case getTime isoString of
        None \<Rightarrow> (False, n)
      | Some t \<Rightarrow> (t < clock n, Suc n))"

text \<open>\<^verbatim>\<open>(times || []).filter((t) => !isPastShowtime(t))\<close>, left to right.\<close>

fun futureTimes_of ::
  "(string \<Rightarrow> int option) \<Rightarrow> clock \<Rightarrow> string list \<Rightarrow> nat \<Rightarrow> string list \<times> nat" where
  "futureTimes_of getTime clock [] n = ([], n)"
| "futureTimes_of getTime clock (t # ts) n =
     (case isPastShowtime getTime clock t n of
        (past, n1) \<Rightarrow>
          (case futureTimes_of getTime clock ts n1 of
             (rest, n2) \<Rightarrow> (if past then rest else t # rest, n2)))"

text \<open>
  \<^verbatim>\<open>
  function filterPastShowtimes(showtimeMap) {
    const filtered = {};
    for (const [movie, times] of Object.entries(showtimeMap || {})) {
      const futureTimes = (times || []).filter((t) => !isPastShowtime(t));
      if (futureTimes.length > 0) {
        filtered[movie] = futureTimes;
      }
    }
    return filtered;
  }
  \<close>
\<close>

fun filterPast_loop ::
  "(string \<Rightarrow> int option) \<Rightarrow> clock \<Rightarrow> schedule \<Rightarrow> schedule \<Rightarrow> nat \<Rightarrow> schedule \<times> nat" where
  "filterPast_loop getTime clock [] filtered n = (filtered, n)"
| "filterPast_loop getTime clock ((movie, times') # entries) filtered n =
     (case futureTimes_of getTime clock times' n of
        (futureTimes, n1) \<Rightarrow>
          filterPast_loop getTime clock entries
            (if length futureTimes > 0 then AList.update movie futureTimes filtered
             else filtered) n1)"

definition filterPastShowtimes ::
  "(string \<Rightarrow> int option) \<Rightarrow> clock \<Rightarrow> schedule \<Rightarrow> nat \<Rightarrow> schedule \<times> nat" where
  "filterPastShowtimes getTime clock showtimeMap n =
     filterPast_loop getTime clock showtimeMap [] n"

subsection \<open>The diff engine\<close>

text \<open>
  The object \<^verbatim>\<open>detectChanges\<close> returns has the fields \<^verbatim>\<open>changed\<close> and
  \<^verbatim>\<open>isInitial\<close> always, \<^verbatim>\<open>message\<close> only on the initial path, and
  \<^verbatim>\<open>added\<close> and \<^verbatim>\<open>removed\<close> only on the comparing path. An absent field is
  \<open>None\<close>.
\<close>

record changes =
  changed :: bool
  isInitial :: bool
  message :: "string option"
  added :: "schedule option"
  removed :: "schedule option"

text \<open>Decimal digits of a count, as a template literal prints a number.\<close>

fun show_nat :: "nat \<Rightarrow> string" where
  "show_nat n =
     (if n < 10 then [''0123456789'' ! n]
      else show_nat (n div 10) @ [''0123456789'' ! (n mod 10)])"

text \<open>
  \<^verbatim>\<open>
  const movieCount = Object.keys(newData).length;
  const showtimeCount = Object.values(newData).reduce((sum, arr) => sum + arr.length, 0);
  \<close>
\<close>

definition movieCount_of :: "schedule \<Rightarrow> nat" where
  "movieCount_of newData = length (map fst newData)"

definition showtimeCount_of :: "schedule \<Rightarrow> nat" where
  "showtimeCount_of newData = foldl (\<lambda>sum arr. sum + length arr) 0 (map snd newData)"

definition initial_message :: "nat \<Rightarrow> nat \<Rightarrow> string" where
  "initial_message movieCount showtimeCount =
     ''Initial check: '' @ show_nat movieCount @ '' movies with '' @
     show_nat showtimeCount @ '' showtimes found''"

text \<open>
  The two comparison loops of \<^verbatim>\<open>detectChanges\<close> have one shape, with the roles of
  the two filtered schedules swapped:
  \<^verbatim>\<open>
  for (const [movie, times] of Object.entries(filteredNewData)) {
    if (!filteredOldData[movie]) {
      added[movie] = times;
    } else {
      const newTimes = times.filter((t) => !filteredOldData[movie].includes(t));
      if (newTimes.length) added[movie] = newTimes;
    }
  }
  \<close>
  \<open>compare_loop entries other acc\<close> runs it over \<open>entries\<close> against \<open>other\<close>,
  writing into \<open>acc\<close>. An array is truthy, so \<^verbatim>\<open>!other[movie]\<close> holds exactly
  when the title is missing.
\<close>

fun compare_loop :: "schedule \<Rightarrow> schedule \<Rightarrow> schedule \<Rightarrow> schedule" where
  "compare_loop [] other acc = acc"
| "compare_loop ((movie, times') # entries) other acc =
     (case map_of other movie of
        None \<Rightarrow> compare_loop entries other (AList.update movie times' acc)
      | Some otherTimes \<Rightarrow>
          (let diffTimes = filter (\<lambda>t. t \<notin> set otherTimes) times'
           in compare_loop entries other
                (if length diffTimes > 0 then AList.update movie diffTimes acc else acc)))"

text \<open>
  \<^verbatim>\<open>
  function detectChanges(oldData, newData) {
    if (!oldData) {
      ...
      return { changed: true, isInitial: true, message: `Initial check: ...` };
    }
    const filteredOldData = filterPastShowtimes(oldData);
    const filteredNewData = filterPastShowtimes(newData);
    const added = {};
    const removed = {};
    ... the two loops ...
    const changed = Object.keys(added).length > 0 || Object.keys(removed).length > 0;
    return { changed, isInitial: false, added, removed };
  }
  \<close>
  \<open>None\<close> is the \<^verbatim>\<open>null\<close> that \<^verbatim>\<open>loadCache\<close> returns when there is no
  usable cache file.
\<close>

definition detectChanges ::
  "(string \<Rightarrow> int option) \<Rightarrow> clock \<Rightarrow> schedule option \<Rightarrow> schedule \<Rightarrow> nat \<Rightarrow> changes \<times> nat" where
  "detectChanges getTime clock oldData newData n =
     (case oldData of
        None \<Rightarrow>
          (\<lparr>changed = True, isInitial = True,
            message = Some (initial_message (movieCount_of newData) (showtimeCount_of newData)),
            added = None, removed = None\<rparr>, n)
      | Some oldSchedule \<Rightarrow>
          (case filterPastShowtimes getTime clock oldSchedule n of
             (filteredOldData, n1) \<Rightarrow>
               (case filterPastShowtimes getTime clock newData n1 of
                  (filteredNewData, n2) \<Rightarrow>
                    (let addedMap = compare_loop filteredNewData filteredOldData [];
                         removedMap = compare_loop filteredOldData filteredNewData []
                     in (\<lparr>changed = (length (map fst addedMap) > 0 \<or> length (map fst removedMap) > 0),
                          isInitial = False, message = None,
                          added = Some addedMap, removed = Some removedMap\<rparr>, n2)))))"

subsection \<open>Strings\<close>

text \<open>
  \<^verbatim>\<open>s.split(c)\<close> for a one-character separator: the piece before the first
  separator, then the pieces of what follows it. There is always a first piece, and a
  piece may be empty.
\<close>

function split_on :: "char \<Rightarrow> string \<Rightarrow> string list" where
  "split_on c s =
     takeWhile (\<lambda>x. x \<noteq> c) s #
     (case dropWhile (\<lambda>x. x \<noteq> c) s of
        [] \<Rightarrow> []
      | sep # rest \<Rightarrow> split_on c rest)"
  by pat_completeness auto
termination
proof (relation "measure (\<lambda>(c, s). length s)")
  fix c :: char and s sep rest
  assume "dropWhile (\<lambda>x. x \<noteq> c) s = sep # rest"
  then have "length rest < length (dropWhile (\<lambda>x. x \<noteq> c) s)" by simp
  also have "\<dots> \<le> length s" by (rule length_dropWhile_le)
  finally show "((c, rest), (c, s)) \<in> measure (\<lambda>(c, s). length s)" by simp
qed simp

declare split_on.simps [simp del]

text \<open>\<^verbatim>\<open>parts.join(sep)\<close>.\<close>

fun join_with :: "string \<Rightarrow> string list \<Rightarrow> string" where
  "join_with sep [] = []"
| "join_with sep [p] = p"
| "join_with sep (p # q # ps) = p @ sep @ join_with sep (q # ps)"

text \<open>
  \<^verbatim>\<open>s.trim()\<close>. A \<open>char\<close> is a byte: the white space of the model is the ASCII
  white space (tab, line feed, vertical tab, form feed, carriage return, space). The
  proofs use of it only that a space is white space and that \<open>=\<close> is not.
\<close>

definition is_space :: "char \<Rightarrow> bool" where
  "is_space c = (c \<in> set [CHR 0x09, CHR 0x0A, CHR 0x0B, CHR 0x0C, CHR 0x0D, CHR '' ''])"

definition js_trim :: "string \<Rightarrow> string" where
  "js_trim s = rev (dropWhile is_space (rev (dropWhile is_space s)))"

subsection \<open>HTTP responses and errors\<close>

text \<open>
  Every request is made with \<^verbatim>\<open>validateStatus: () => true\<close>, so \<^verbatim>\<open>axios\<close>
  rejects only when no response arrives (time-out, DNS, connection reset): that is
  \<open>No_Response\<close>. A response carries its status, its \<^verbatim>\<open>set-cookie\<close> header
  (absent or a list) and its body.
\<close>

datatype 'b response = No_Response | Response int "string list option" 'b

text \<open>
  What the scripts read of a GraphQL body: \<^verbatim>\<open>data?.error?.message\<close>,
  \<^verbatim>\<open>data?.errors\<close> (\<open>[]\<close> when absent) and
  \<^verbatim>\<open>data?.data?.showingsForDate?.data\<close>. A body that is a string, or
  \<^verbatim>\<open>null\<close>, has none of them.
\<close>

record showing =
  movie_name :: "string option"
  time_iso :: "string option"

record gql_body =
  error_message :: "string option"
  gql_errors :: "string list"
  showings_data :: "showing list option"

text \<open>
  The errors the fetch stage throws, by the text of their message; the body snippet a
  message ends with is left out.
\<close>

datatype fetch_error =
    Transport_Error
  | Forbidden string
  | Http_Status int string
  | Graphql_Error string string
  | Graphql_Errors string "string list"

subsection \<open>Session priming\<close>

text \<open>
  \<^verbatim>\<open>
  const [k, ...rest] = kv.trim().split("=");
  if (!k) return;
  existing.set(k, rest.join("="));
  \<close>
  A \<^verbatim>\<open>Map\<close> keeps the position of a key that is set again.
\<close>

definition cookie_kv :: "string \<Rightarrow> string \<times> string" where
  "cookie_kv kv =
     (let parts = split_on CHR ''='' (js_trim kv); k = hd parts; rest = tl parts
      in (k, join_with ''='' rest))"

definition set_cookie_pair :: "string \<Rightarrow> (string \<times> string) list \<Rightarrow> (string \<times> string) list" where
  "set_cookie_pair kv existing =
     (case cookie_kv kv of (k, v) \<Rightarrow> if k = [] then existing else AList.update k v existing)"

text \<open>
  \<^verbatim>\<open>
  function mergeSetCookies(existingCookieHeader, setCookieArray) {
    const existing = new Map();
    if (existingCookieHeader) {
      existingCookieHeader.split(";").forEach((kv) => { ... });
    }
    for (const c of setCookieArray || []) {
      const [kv] = c.split(";");
      ...
    }
    return Array.from(existing.entries())
      .map(([k, v]) => `${k}=${v}`)
      .join("; ");
  }
  \<close>
\<close>

definition existing_cookies :: "string \<Rightarrow> (string \<times> string) list" where
  "existing_cookies existingCookieHeader =
     (if existingCookieHeader \<noteq> []
      then fold set_cookie_pair (split_on CHR '';'' existingCookieHeader) []
      else [])"

text \<open>\<^verbatim>\<open>setCookieArray || []\<close>: an absent header is an empty list.\<close>

definition header_entries :: "string list option \<Rightarrow> string list" where
  "header_entries setCookieArray = (case setCookieArray of None \<Rightarrow> [] | Some cs \<Rightarrow> cs)"

definition merged_cookies :: "string \<Rightarrow> string list option \<Rightarrow> (string \<times> string) list" where
  "merged_cookies existingCookieHeader setCookieArray =
     fold (\<lambda>c existing. set_cookie_pair (hd (split_on CHR '';'' c)) existing)
       (header_entries setCookieArray)
       (existing_cookies existingCookieHeader)"

definition cookie_header :: "(string \<times> string) list \<Rightarrow> string" where
  "cookie_header entries = join_with ''; '' (map (\<lambda>(k, v). k @ ''='' @ v) entries)"

definition mergeSetCookies :: "string \<Rightarrow> string list option \<Rightarrow> string" where
  "mergeSetCookies existingCookieHeader setCookieArray =
     cookie_header (merged_cookies existingCookieHeader setCookieArray)"

text \<open>
  \<^verbatim>\<open>primeCookies\<close> gets the home page, then the listing page with the cookies
  collected so far. \<open>get_home\<close> is the first response and \<open>get_now\<close> the second,
  as a function of the cookie header sent. No status is looked at.
\<close>

definition primeCookies :: "'b response \<Rightarrow> (string \<Rightarrow> 'b response) \<Rightarrow> fetch_error + string" where
  "primeCookies get_home get_now =
     (case get_home of
        No_Response \<Rightarrow> Inl Transport_Error
      | Response homeStatus homeSetCookie homeBody \<Rightarrow>
          (let cookies = mergeSetCookies [] homeSetCookie
           in case get_now cookies of
                No_Response \<Rightarrow> Inl Transport_Error
              | Response nowStatus nowSetCookie nowBody \<Rightarrow>
                  Inr (mergeSetCookies cookies nowSetCookie)))"

text \<open>
  The name and the value each \<^verbatim>\<open>set-cookie\<close> entry sets, in order; an entry
  with an empty name sets nothing.
\<close>

definition cookie_pairs :: "string list \<Rightarrow> (string \<times> string) list" where
  "cookie_pairs cs =
     filter (\<lambda>(k, v). k \<noteq> []) (map (\<lambda>c. cookie_kv (hd (split_on CHR '';'' c))) cs)"

text \<open>
  The shape of every name and value in a session: the name is not empty, starts with
  no white space and holds neither \<open>;\<close> nor \<open>=\<close>; the value holds no \<open>;\<close>
  and ends with no white space.
\<close>

definition wf_cookie :: "string \<times> string \<Rightarrow> bool" where
  "wf_cookie p =
     (case p of (k, v) \<Rightarrow>
        k \<noteq> [] \<and> CHR '';'' \<notin> set k \<and> CHR ''='' \<notin> set k \<and> \<not> is_space (hd k) \<and>
        CHR '';'' \<notin> set v \<and> (v = [] \<or> \<not> is_space (last v)))"

subsection \<open>The window fetcher and the normalizer\<close>

definition DAYS_AHEAD :: nat where
  "DAYS_AHEAD = 30"

text \<open>
  \<^verbatim>\<open>fetchShowingsForDate\<close>: \<open>post\<close> is the endpoint's answer to this request,
  as a function of the cookie header and of the date sent.
  \<^verbatim>\<open>
  if (resp.status === 403) throw new Error(`GraphQL 403 for date=${ymd}. ...`);
  if (resp.status < 200 || resp.status >= 300) throw new Error(`GraphQL HTTP ${resp.status} for date=${ymd}. ...`);
  if (resp.data?.error?.message) throw new Error(`GraphQL error for date=${ymd}: ...`);
  if (resp.data?.errors?.length) throw new Error(`GraphQL errors for date=${ymd}: ...`);
  return resp.data?.data?.showingsForDate?.data ?? [];
  \<close>
\<close>

definition fetchShowingsForDate ::
  "(string \<Rightarrow> string \<Rightarrow> gql_body response) \<Rightarrow> string \<Rightarrow> string \<Rightarrow> fetch_error + showing list" where
  "fetchShowingsForDate post cookieHeader ymd =
     (case post cookieHeader ymd of
        No_Response \<Rightarrow> Inl Transport_Error
      | Response status setCookie body \<Rightarrow>
          if status = 403 then Inl (Forbidden ymd)
          else if status < 200 \<or> status \<ge> 300 then Inl (Http_Status status ymd)
          else if (case error_message body of None \<Rightarrow> False | Some msg \<Rightarrow> msg \<noteq> [])
            then Inl (Graphql_Error ymd (case error_message body of None \<Rightarrow> [] | Some msg \<Rightarrow> msg))
          else if length (gql_errors body) > 0 then Inl (Graphql_Errors ymd (gql_errors body))
          else Inr (case showings_data body of None \<Rightarrow> [] | Some showings \<Rightarrow> showings))"

text \<open>
  The inner loop of \<^verbatim>\<open>getAllShowtimesRollingMonth\<close>:
  \<^verbatim>\<open>
  for (const s of showings) {
    const movie = s?.movie?.name?.trim();
    const iso = s?.time;
    if (!movie || !iso) continue;
    if (!map[movie]) map[movie] = [];
    map[movie].push(iso);
  }
  \<close>
  A missing name or time and an empty one are both falsy; the empty string stands for
  both.
\<close>

fun collect_showings :: "showing list \<Rightarrow> schedule \<Rightarrow> schedule" where
  "collect_showings [] showtimeMap = showtimeMap"
| "collect_showings (s # showings) showtimeMap =
     (let movie = (case movie_name s of None \<Rightarrow> [] | Some name \<Rightarrow> js_trim name);
          isoString = (case time_iso s of None \<Rightarrow> [] | Some t \<Rightarrow> t)
      in if movie = [] \<or> isoString = [] then collect_showings showings showtimeMap
         else collect_showings showings
                (case map_of showtimeMap movie of
                   None \<Rightarrow> AList.update movie [isoString] showtimeMap
                 | Some isos \<Rightarrow> AList.update movie (isos @ [isoString]) showtimeMap))"

text \<open>
  \<^verbatim>\<open>
  function addDays(dateObj, days) {
    const d = new Date(dateObj.getTime());
    d.setUTCDate(d.getUTCDate() + days);
    return d;
  }
  \<close>
  A date object is its time value, in milliseconds since the epoch.
  \<^verbatim>\<open>setUTCDate\<close> moves the day of the month in UTC and keeps the UTC time of day;
  a day of UTC has 86 400 000 ms, so the time value moves by that much for each day.
\<close>

definition addDays :: "int \<Rightarrow> int \<Rightarrow> int" where
  "addDays dateObj days = dateObj + days * 86400000"

text \<open>
  Year, month and day of the Gregorian calendar for a day counted from 1 January 1970,
  which is what the formatter of the runtime computes for the parts \<^verbatim>\<open>year\<close>,
  \<^verbatim>\<open>month\<close> and \<^verbatim>\<open>day\<close>. The count is shifted to start on 1 March
  of the year 0, so that a leap day is the last day of its year, and split into eras of
  400 years, which have 146 097 days each.
\<close>

definition year_of_era :: "int \<Rightarrow> int" where
  "year_of_era dayOfEra =
     (dayOfEra - dayOfEra div 1460 + dayOfEra div 36524 - dayOfEra div 146096) div 365"

definition day_of_year :: "int \<Rightarrow> int \<Rightarrow> int" where
  "day_of_year dayOfEra yearOfEra =
     dayOfEra - (365 * yearOfEra + yearOfEra div 4 - yearOfEra div 100)"

definition month_and_day :: "int \<Rightarrow> int \<times> int" where
  "month_and_day dayOfYear =
     (let monthFromMarch = (5 * dayOfYear + 2) div 153
      in (if monthFromMarch < 10 then monthFromMarch + 3 else monthFromMarch - 9,
          dayOfYear - (153 * monthFromMarch + 2) div 5 + 1))"

definition calendar_date :: "int \<Rightarrow> int \<times> int \<times> int" where
  "calendar_date dayNumber =
     (let shifted = dayNumber + 719468;
          era = shifted div 146097;
          dayOfEra = shifted mod 146097;
          yearOfEra = year_of_era dayOfEra
      in case month_and_day (day_of_year dayOfEra yearOfEra) of
           (m, d) \<Rightarrow> (yearOfEra + era * 400 + (if m \<le> 2 then 1 else 0), m, d))"

text \<open>The option \<^verbatim>\<open>"2-digit"\<close> of the formatter.\<close>

definition two_digits :: "int \<Rightarrow> string" where
  "two_digits n = (if n < 10 then ''0'' @ show_nat (nat n) else show_nat (nat n))"

text \<open>
  \<^verbatim>\<open>
  function toYMD(dateObj) {
    const parts = new Intl.DateTimeFormat("en-CA", {
      timeZone: MEL_TZ, year: "numeric", month: "2-digit", day: "2-digit",
    }).formatToParts(dateObj);
    const y = parts.find((p) => p.type === "year").value;
    const m = parts.find((p) => p.type === "month").value;
    const d = parts.find((p) => p.type === "day").value;
    return `${y}-${m}-${d}`;
  }
  \<close>
  The calendar date that the instant has on the clocks of the zone \<^verbatim>\<open>MEL_TZ\<close>.
  The rules of the zone belong to the runtime: \<open>tzOffset t\<close> is the number of
  milliseconds by which local time is ahead of UTC at the instant \<open>t\<close>. The model is
  for the years 1 to 9999.
\<close>

definition toYMD :: "(int \<Rightarrow> int) \<Rightarrow> int \<Rightarrow> string" where
  "toYMD tzOffset dateObj =
     (case calendar_date ((dateObj + tzOffset dateObj) div 86400000) of
        (y, m, d) \<Rightarrow> show_nat (nat y) @ ''-'' @ two_digits m @ ''-'' @ two_digits d)"

text \<open>
  The outer loop of \<^verbatim>\<open>getAllShowtimesRollingMonth\<close>:
  \<^verbatim>\<open>
  let cursor = new Date();
  for (let i = 0; i <= DAYS_AHEAD; i++) {
    const ymd = toYMD(cursor);
    const showings = await fetchShowingsForDate(cookieHeader, ymd);
    for (const s of showings) { ... }
    cursor = addDays(cursor, 1);
    await new Promise((r) => setTimeout(r, 150));
  }
  \<close>
  \<open>post i\<close> answers the \<open>i\<close>-th query. The second component of the result is the
  list of the dates queried, in the order of the queries. A throw leaves the loop at
  once.
\<close>

function rolling_loop ::
  "(nat \<Rightarrow> string \<Rightarrow> string \<Rightarrow> gql_body response) \<Rightarrow> (int \<Rightarrow> int) \<Rightarrow> string \<Rightarrow> nat \<Rightarrow> int \<Rightarrow>
     schedule \<Rightarrow> string list \<Rightarrow> (fetch_error + schedule) \<times> string list" where
  "rolling_loop post tzOffset cookieHeader i cursor showtimeMap queried =
     (if i \<le> DAYS_AHEAD
      then (let ymd = toYMD tzOffset cursor
            in case fetchShowingsForDate (post i) cookieHeader ymd of
                 Inl e \<Rightarrow> (Inl e, queried @ [ymd])
               | Inr showings \<Rightarrow>
                   rolling_loop post tzOffset cookieHeader (Suc i) (addDays cursor 1)
                     (collect_showings showings showtimeMap) (queried @ [ymd]))
      else (Inr showtimeMap, queried))"
  by pat_completeness auto
termination
  by (relation "measure (\<lambda>(post, tzOffset, cookieHeader, i, cursor, showtimeMap, queried).
        Suc DAYS_AHEAD - i)") auto

declare rolling_loop.simps [simp del]

text \<open>\<^verbatim>\<open>Array.from(new Set(xs))\<close>: the first occurrence of each element, in order.\<close>

definition dedupe :: "'a list \<Rightarrow> 'a list" where
  "dedupe xs = foldl (\<lambda>seen x. if x \<in> set seen then seen else seen @ [x]) [] xs"

text \<open>
  \<^verbatim>\<open>xs.sort(cmp)\<close>. The language fixes the result when \<open>cmp\<close> is a consistent
  comparator: the stable sort. The model is the stable insertion sort, which places an
  element before the first one it does not compare greater than. With an inconsistent
  comparator the language leaves the order to the implementation, and the model is one
  of the orders allowed.
\<close>

fun insert_by :: "('a \<Rightarrow> 'a \<Rightarrow> int) \<Rightarrow> 'a \<Rightarrow> 'a list \<Rightarrow> 'a list" where
  "insert_by cmp x [] = [x]"
| "insert_by cmp x (y # ys) = (if cmp x y \<le> 0 then x # y # ys else y # insert_by cmp x ys)"

definition sort_by :: "('a \<Rightarrow> 'a \<Rightarrow> int) \<Rightarrow> 'a list \<Rightarrow> 'a list" where
  "sort_by cmp xs = foldr (insert_by cmp) xs []"

text \<open>
  \<^verbatim>\<open>(a, b) => new Date(a).getTime() - new Date(b).getTime()\<close>; a \<^verbatim>\<open>NaN\<close>
  result counts as \<open>0\<close> in a sort.
\<close>

definition compare_times :: "(string \<Rightarrow> int option) \<Rightarrow> string \<Rightarrow> string \<Rightarrow> int" where
  "compare_times getTime a b =
     (case (getTime a, getTime b) of (Some ta, Some tb) \<Rightarrow> ta - tb | _ \<Rightarrow> 0)"

text \<open>
  \<^verbatim>\<open>
  for (const movie of Object.keys(map)) {
    map[movie] = Array.from(new Set(map[movie])).sort(
      (a, b) => new Date(a).getTime() - new Date(b).getTime());
  }
  \<close>
\<close>

definition dedupe_sort_all :: "(string \<Rightarrow> int option) \<Rightarrow> schedule \<Rightarrow> schedule" where
  "dedupe_sort_all getTime showtimeMap =
     fold (\<lambda>movie m.
        case map_of m movie of
          None \<Rightarrow> m
        | Some isos \<Rightarrow> AList.update movie (sort_by (compare_times getTime) (dedupe isos)) m)
       (map fst showtimeMap) showtimeMap"

text \<open>
  \<open>start\<close> is the time value of \<^verbatim>\<open>new Date()\<close>, the instant at which the loop
  begins. When the session cannot be primed no date is queried.
\<close>

definition getAllShowtimesRollingMonth ::
  "(string \<Rightarrow> int option) \<Rightarrow> 'b response \<Rightarrow> (string \<Rightarrow> 'b response) \<Rightarrow>
   (nat \<Rightarrow> string \<Rightarrow> string \<Rightarrow> gql_body response) \<Rightarrow> (int \<Rightarrow> int) \<Rightarrow> int \<Rightarrow>
   (fetch_error + schedule) \<times> string list" where
  "getAllShowtimesRollingMonth getTime get_home get_now post tzOffset start =
     (case primeCookies get_home get_now of
        Inl e \<Rightarrow> (Inl e, [])
      | Inr cookieHeader \<Rightarrow>
          (case rolling_loop post tzOffset cookieHeader 0 start [] [] of
             (Inl e, queried) \<Rightarrow> (Inl e, queried)
           | (Inr showtimeMap, queried) \<Rightarrow> (Inr (dedupe_sort_all getTime showtimeMap), queried)))"

text \<open>
  The date of the \<open>i\<close>-th query (the cursor has then been moved \<open>i\<close> times by one
  day), the outcome of that query, and the records it yields when it succeeds.
\<close>

definition date_of_step :: "(int \<Rightarrow> int) \<Rightarrow> int \<Rightarrow> nat \<Rightarrow> string" where
  "date_of_step tzOffset start i = toYMD tzOffset (addDays start (int i))"

definition day_result ::
  "(nat \<Rightarrow> string \<Rightarrow> string \<Rightarrow> gql_body response) \<Rightarrow> (int \<Rightarrow> int) \<Rightarrow> int \<Rightarrow> string \<Rightarrow> nat \<Rightarrow>
     fetch_error + showing list" where
  "day_result post tzOffset start cookieHeader i =
     fetchShowingsForDate (post i) cookieHeader (date_of_step tzOffset start i)"

definition day_showings ::
  "(nat \<Rightarrow> string \<Rightarrow> string \<Rightarrow> gql_body response) \<Rightarrow> (int \<Rightarrow> int) \<Rightarrow> int \<Rightarrow> string \<Rightarrow> nat \<Rightarrow>
     showing list" where
  "day_showings post tzOffset start cookieHeader i =
     (case day_result post tzOffset start cookieHeader i of Inl e \<Rightarrow> [] | Inr showings \<Rightarrow> showings)"

subsection \<open>The notifier\<close>

record payload =
  value1 :: string
  value2 :: string
  value3 :: string

text \<open>
  One block of \<^verbatim>\<open>formatMessage\<close>; the two blocks differ in the heading only:
  \<^verbatim>\<open>
  let addedText = "";
  if (Object.keys(changes.added).length) {
    addedText = "SESSIONS ADDED:<br>\n";
    for (const [movie, times] of Object.entries(changes.added)) {
      addedText += `${movie}: ${times.map(formatSessionMelbourne).join(", ")}<br>\n`;
    }
  }
  \<close>
  \<^verbatim>\<open>formatSessionMelbourne\<close> and \<^verbatim>\<open>formatDateTimeMelbourne\<close> format with
  the runtime's locale data; they are the parameters \<open>formatSession\<close> and
  \<open>formatDateTime\<close>.
\<close>

definition sessions_text :: "(string \<Rightarrow> string) \<Rightarrow> string \<Rightarrow> schedule \<Rightarrow> string" where
  "sessions_text formatSession heading entries =
     (if length (map fst entries) > 0
      then fold (\<lambda>(movie, times') text.
              text @ movie @ '': '' @ join_with '', '' (map formatSession times') @
              ''<br>'' @ [CHR 0x0A])
             entries (heading @ ''<br>'' @ [CHR 0x0A])
      else [])"

text \<open>
  \<^verbatim>\<open>
  function formatMessage(changes, timestampIso) {
    if (changes.isInitial) {
      return { value1: changes.message, value2: "", value3: formatDateTimeMelbourne(timestampIso) };
    }
    ...
    return {
      value1: addedText || "No sessions added",
      value2: removedText || "No sessions removed",
      value3: formatDateTimeMelbourne(timestampIso),
    };
  }
  \<close>
  \<^verbatim>\<open>detectChanges\<close> sets \<^verbatim>\<open>message\<close> on the initial path and
  \<^verbatim>\<open>added\<close> and \<^verbatim>\<open>removed\<close> on the other, so the defaults below are never
  used.
\<close>

definition formatMessage ::
  "(string \<Rightarrow> string) \<Rightarrow> (string \<Rightarrow> string) \<Rightarrow> changes \<Rightarrow> string \<Rightarrow> payload" where
  "formatMessage formatSession formatDateTime ch timestampIso =
     (if isInitial ch
      then \<lparr>value1 = (case message ch of None \<Rightarrow> [] | Some m \<Rightarrow> m), value2 = [],
            value3 = formatDateTime timestampIso\<rparr>
      else
        (let addedText = sessions_text formatSession ''SESSIONS ADDED:''
               (case added ch of None \<Rightarrow> [] | Some a \<Rightarrow> a);
             removedText = sessions_text formatSession ''SESSIONS REMOVED:''
               (case removed ch of None \<Rightarrow> [] | Some r \<Rightarrow> r)
         in \<lparr>value1 = (if addedText \<noteq> [] then addedText else ''No sessions added''),
              value2 = (if removedText \<noteq> [] then removedText else ''No sessions removed''),
              value3 = formatDateTime timestampIso\<rparr>))"

text \<open>
  \<^verbatim>\<open>
  async function sendNotification(message) {
    const webhookUrl = process.env.IFTTT_WEBHOOK_URL;
    if (!webhookUrl) throw new Error("IFTTT_WEBHOOK_URL not set");
    await axios.post(webhookUrl, message, { timeout: 20000 });
    console.log("Notification sent successfully");
  }
  \<close>
  \<open>env_url\<close> is the environment variable (\<open>None\<close> when unset) and
  \<open>webhook url message\<close> tells whether the POST resolves. The second component of
  the result lists the POSTs made.
\<close>

datatype notify_error = Webhook_Url_Not_Set | Webhook_Post_Failed

definition sendNotification ::
  "string option \<Rightarrow> (string \<Rightarrow> payload \<Rightarrow> bool) \<Rightarrow> payload \<Rightarrow>
     (notify_error + unit) \<times> (string \<times> payload) list" where
  "sendNotification env_url webhook msg =
     (case env_url of
        None \<Rightarrow> (Inl Webhook_Url_Not_Set, [])
      | Some webhookUrl \<Rightarrow>
          if webhookUrl = [] then (Inl Webhook_Url_Not_Set, [])
          else if webhook webhookUrl msg then (Inr (), [(webhookUrl, msg)])
          else (Inl Webhook_Post_Failed, [(webhookUrl, msg)]))"

text \<open>
  The notifier of the basic script:
  \<^verbatim>\<open>
  async function sendNotification(message) {
    const webhookUrl = process.env.IFTTT_WEBHOOK_URL;
    if (!webhookUrl) {
      console.error('IFTTT_WEBHOOK_URL not set');
      return;
    }
    try {
      await axios.post(webhookUrl, message);
      console.log('Notification sent successfully');
    } catch (error) {
      console.error('Error sending notification:', error.message);
    }
  }
  \<close>
\<close>

definition sendNotification_basic ::
  "string option \<Rightarrow> (string \<Rightarrow> payload \<Rightarrow> bool) \<Rightarrow> payload \<Rightarrow>
     (notify_error + unit) \<times> (string \<times> payload) list" where
  "sendNotification_basic env_url webhook msg =
     (case env_url of
        None \<Rightarrow> (Inr (), [])
      | Some webhookUrl \<Rightarrow>
          if webhookUrl = [] then (Inr (), [])
          else if webhook webhookUrl msg then (Inr (), [(webhookUrl, msg)])
          else (Inr (), [(webhookUrl, msg)]))"

subsection \<open>The snapshot store and a run\<close>

text \<open>
  The cache file is missing, holds something \<^verbatim>\<open>JSON.parse\<close> rejects, or holds a
  schedule.
  \<^verbatim>\<open>
  function loadCache() {
    if (!fs.existsSync(CACHE_FILE)) return null;
    try { return JSON.parse(fs.readFileSync(CACHE_FILE, "utf8")); } catch { return null; }
  }
  function saveCache(data) { fs.writeFileSync(CACHE_FILE, JSON.stringify(data, null, 2)); }
  \<close>
\<close>

datatype cache_file = No_File | Unparsable | Cached schedule

definition loadCache :: "cache_file \<Rightarrow> schedule option" where
  "loadCache file = (case file of No_File \<Rightarrow> None | Unparsable \<Rightarrow> None | Cached data \<Rightarrow> Some data)"

definition saveCache :: "schedule \<Rightarrow> cache_file" where
  "saveCache data = Cached data"

text \<open>
  What a run reads from outside, and what it leaves: the exit code of the process, the
  cache file and the POSTs made to the webhook.
\<close>

record world =
  w_getTime :: "string \<Rightarrow> int option"
  w_clock :: clock
  w_formatSession :: "string \<Rightarrow> string"
  w_formatDateTime :: "string \<Rightarrow> string"
  w_home :: "string response"
  w_now :: "string \<Rightarrow> string response"
  w_post :: "nat \<Rightarrow> string \<Rightarrow> string \<Rightarrow> gql_body response"
  w_tzOffset :: "int \<Rightarrow> int"
  w_start :: int
  w_timestamp :: string
  w_url :: "string option"
  w_webhook :: "string \<Rightarrow> payload \<Rightarrow> bool"
  w_cache :: cache_file

record run =
  exit_code :: nat
  store :: cache_file
  posts :: "(string \<times> payload) list"

text \<open>
  \<^verbatim>\<open>
  async function main() {
    const oldData = loadCache();
    let newData;
    try {
      newData = await getAllShowtimesRollingMonth();
    } catch (e) {
      console.error("Error fetching showtimes:", e.message || e);
      process.exit(1);
    }
    ...
    const changes = detectChanges(oldData, newData);
    if (changes.changed) {
      const msg = formatMessage(changes, new Date().toISOString());
      await sendNotification(msg);
    } else { ... }
    saveCache(newData);
  }
  main().catch((e) => { console.error(e); process.exit(1); });
  \<close>
  An error of \<^verbatim>\<open>sendNotification\<close> leaves \<^verbatim>\<open>main\<close> before
  \<^verbatim>\<open>saveCache\<close> and ends the process with code 1.
\<close>

definition main :: "world \<Rightarrow> run" where
  "main w =
     (let oldData = loadCache (w_cache w)
      in case fst (getAllShowtimesRollingMonth (w_getTime w) (w_home w) (w_now w) (w_post w)
                     (w_tzOffset w) (w_start w)) of
           Inl e \<Rightarrow> \<lparr>exit_code = 1, store = w_cache w, posts = []\<rparr>
         | Inr newData \<Rightarrow>
             (let ch = fst (detectChanges (w_getTime w) (w_clock w) oldData newData 0)
              in if changed ch
                 then (case sendNotification (w_url w) (w_webhook w)
                              (formatMessage (w_formatSession w) (w_formatDateTime w) ch
                                 (w_timestamp w)) of
                         (Inl e, sent) \<Rightarrow> \<lparr>exit_code = 1, store = w_cache w, posts = sent\<rparr>
                       | (Inr u, sent) \<Rightarrow>
                           \<lparr>exit_code = 0, store = saveCache newData, posts = sent\<rparr>)
                 else \<lparr>exit_code = 0, store = saveCache newData, posts = []\<rparr>))"

subsection \<open>The single-query script\<close>

text \<open>
  \<^verbatim>\<open>
  async function getCookieHeader() {
    const resp = await axios.get(`${NOW_SHOWING_URL}/`, { ..., validateStatus: () => true });
    const setCookie = resp.headers["set-cookie"] || [];
    const cookieHeader = setCookie.map((c) => c.split(";")[0]).filter(Boolean).join("; ");
    return cookieHeader;
  }
  \<close>
\<close>

definition getCookieHeader :: "'b response \<Rightarrow> fetch_error + string" where
  "getCookieHeader resp =
     (case resp of
        No_Response \<Rightarrow> Inl Transport_Error
      | Response status setCookie body \<Rightarrow>
          Inr (join_with ''; ''
                 (filter (\<lambda>p. p \<noteq> [])
                    (map (\<lambda>c. hd (split_on CHR '';'' c)) (header_entries setCookie)))))"

text \<open>
  The loop of \<^verbatim>\<open>getAllShowtimesViaGraphQL\<close> stores the formatted string, not the
  instant:
  \<^verbatim>\<open>
  for (const s of showings) {
    const movie = s?.movie?.name?.trim();
    const iso = s?.time;
    if (!movie || !iso) continue;
    const d = new Date(iso);
    ...
    const formatted = `${dateStr} ${timeStr}`;
    if (!map[movie]) map[movie] = [];
    map[movie].push(formatted);
  }
  for (const movie of Object.keys(map)) {
    map[movie] = Array.from(new Set(map[movie])).sort();
  }
  \<close>
  \<^verbatim>\<open>sort()\<close> with no comparator orders strings by their code units.
\<close>

fun collect_formatted :: "(string \<Rightarrow> string) \<Rightarrow> showing list \<Rightarrow> schedule \<Rightarrow> schedule" where
  "collect_formatted formatSession [] showtimeMap = showtimeMap"
| "collect_formatted formatSession (s # showings) showtimeMap =
     (let movie = (case movie_name s of None \<Rightarrow> [] | Some name \<Rightarrow> js_trim name);
          isoString = (case time_iso s of None \<Rightarrow> [] | Some t \<Rightarrow> t)
      in if movie = [] \<or> isoString = []
         then collect_formatted formatSession showings showtimeMap
         else collect_formatted formatSession showings
                (case map_of showtimeMap movie of
                   None \<Rightarrow> AList.update movie [formatSession isoString] showtimeMap
                 | Some formatted \<Rightarrow>
                     AList.update movie (formatted @ [formatSession isoString]) showtimeMap))"

definition dedupe_sort_strings :: "schedule \<Rightarrow> schedule" where
  "dedupe_sort_strings showtimeMap =
     fold (\<lambda>movie m.
        case map_of m movie of
          None \<Rightarrow> m
        | Some formatted \<Rightarrow> AList.update movie (sort (dedupe formatted)) m)
       (map fst showtimeMap) showtimeMap"

text \<open>
  \<^verbatim>\<open>getAllShowtimesViaGraphQL\<close> sends one query. Its errors name no date; the date
  of the error is the empty string here.
  \<^verbatim>\<open>
  if (resp.status === 403) throw new Error(`GraphQL 403 blocked. ...`);
  if (resp.status < 200 || resp.status >= 300) throw new Error(`GraphQL HTTP ${resp.status}: ...`);
  if (resp.data?.errors?.length) throw new Error(`GraphQL errors: ...`);
  const showings = resp.data?.data?.showingsForDate?.data ?? [];
  \<close>
\<close>

definition getAllShowtimesViaGraphQL ::
  "(string \<Rightarrow> string) \<Rightarrow> 'b response \<Rightarrow> (string \<Rightarrow> gql_body response) \<Rightarrow> fetch_error + schedule" where
  "getAllShowtimesViaGraphQL formatSession get_now post_once =
     (case getCookieHeader get_now of
        Inl e \<Rightarrow> Inl e
      | Inr cookieHeader \<Rightarrow>
          (case post_once cookieHeader of
             No_Response \<Rightarrow> Inl Transport_Error
           | Response status setCookie body \<Rightarrow>
               if status = 403 then Inl (Forbidden [])
               else if status < 200 \<or> status \<ge> 300 then Inl (Http_Status status [])
               else if length (gql_errors body) > 0 then Inl (Graphql_Errors [] (gql_errors body))
               else Inr (dedupe_sort_strings
                      (collect_formatted formatSession
                         (case showings_data body of None \<Rightarrow> [] | Some showings \<Rightarrow> showings)
                         []))))"

text \<open>
  \<^verbatim>\<open>detectChanges\<close> of this script compares the raw schedules:
  \<^verbatim>\<open>
  for (const [movie, times] of Object.entries(newData)) {
    if (!oldData[movie]) { added[movie] = times; }
    else {
      const newTimes = times.filter((t) => !oldData[movie].includes(t));
      if (newTimes.length) added[movie] = newTimes;
    }
  }
  \<close>
  and symmetrically for \<^verbatim>\<open>removed\<close>.
\<close>

definition detectChanges_single :: "schedule option \<Rightarrow> schedule \<Rightarrow> changes" where
  "detectChanges_single oldData newData =
     (case oldData of
        None \<Rightarrow>
          \<lparr>changed = True, isInitial = True,
           message = Some (initial_message (movieCount_of newData) (showtimeCount_of newData)),
           added = None, removed = None\<rparr>
      | Some oldSchedule \<Rightarrow>
          (let addedMap = compare_loop newData oldSchedule [];
               removedMap = compare_loop oldSchedule newData []
           in \<lparr>changed = (length (map fst addedMap) > 0 \<or> length (map fst removedMap) > 0),
                isInitial = False, message = None,
                added = Some addedMap, removed = Some removedMap\<rparr>))"

text \<open>
  \<^verbatim>\<open>formatMessage\<close> of this script joins the stored strings as they are:
  \<^verbatim>\<open>addedText += `${movie}: ${times.join(", ")}<br>\n`;\<close>
\<close>

definition formatMessage_single :: "(string \<Rightarrow> string) \<Rightarrow> changes \<Rightarrow> string \<Rightarrow> payload" where
  "formatMessage_single formatDateTime ch timestampIso =
     formatMessage (\<lambda>t. t) formatDateTime ch timestampIso"

text \<open>
  \<^verbatim>\<open>
  async function main() {
    let newData = {};
    try {
      newData = await getAllShowtimesViaGraphQL();
    } catch (e) {
      console.error("Error fetching showtimes:", e.message || e);
      newData = {};
    }
    const oldData = loadCache();
    ...
    const changes = detectChanges(oldData, newData);
    if (changes.changed) {
      const msg = formatMessage(changes, new Date().toISOString());
      await sendNotification(msg);
    } else { ... }
    saveCache(newData);
  }
  main().catch((e) => { console.error(e); process.exit(1); });
  \<close>
  The only query of this script is \<open>w_post w 0\<close>, and it sends no date.
\<close>

definition main_single :: "world \<Rightarrow> run" where
  "main_single w =
     (let newData =
            (case getAllShowtimesViaGraphQL (w_formatSession w) (w_now w [])
                    (\<lambda>cookieHeader. w_post w 0 cookieHeader []) of
               Inl e \<Rightarrow> []
             | Inr fetched \<Rightarrow> fetched);
          oldData = loadCache (w_cache w);
          ch = detectChanges_single oldData newData
      in if changed ch
         then (case sendNotification (w_url w) (w_webhook w)
                      (formatMessage_single (w_formatDateTime w) ch (w_timestamp w)) of
                 (Inl e, sent) \<Rightarrow> \<lparr>exit_code = 1, store = w_cache w, posts = sent\<rparr>
               | (Inr u, sent) \<Rightarrow> \<lparr>exit_code = 0, store = saveCache newData, posts = sent\<rparr>)
         else \<lparr>exit_code = 0, store = saveCache newData, posts = []\<rparr>)"

subsection \<open>Example inputs\<close>

definition example_getTime :: "string \<Rightarrow> int option" where
  "example_getTime s =
     (if s = ''2025-01-01T10:00:00Z'' then Some 1735725600000
      else if s = ''2025-01-10T10:00:00Z'' then Some 1736503200000
      else if s = ''2025-01-12T10:00:00Z'' then Some 1736676000000
      else None)"

definition example_now :: int where
  "example_now = 1736380800000"

definition ticking_clock :: clock where
  "ticking_clock k = example_now + int k"

text \<open>
  The offsets of the zone Australia/Melbourne for the instants from October 2024 to April
  2026: daylight time (UTC+11) ended on 6 April 2025 at 3 am, which is
  2025-04-05T16:00:00Z, and began again on 5 October 2025 at 2 am, which is
  2025-10-04T16:00:00Z; between the two the zone is on UTC+10.
\<close>

definition melbourne_offset :: "int \<Rightarrow> int" where
  "melbourne_offset t =
     (if 1743868800000 \<le> t \<and> t < 1759593600000 then 36000000 else 39600000)"

definition example_body :: "showing list \<Rightarrow> gql_body" where
  "example_body showings = \<lparr>error_message = None, gql_errors = [], showings_data = Some showings\<rparr>"

definition example_showing :: showing where
  "example_showing = \<lparr>movie_name = Some ''Movie A '', time_iso = Some ''2025-01-12T10:00:00Z''\<rparr>"

text \<open>An endpoint that answers every query, and one that forbids the fifth.\<close>

definition post_ok :: "nat \<Rightarrow> string \<Rightarrow> string \<Rightarrow> gql_body response" where
  "post_ok i cookieHeader ymd = Response 200 None (example_body [example_showing])"

definition post_forbidden_day5 :: "nat \<Rightarrow> string \<Rightarrow> string \<Rightarrow> gql_body response" where
  "post_forbidden_day5 i cookieHeader ymd =
     (if i = 4 then Response 403 None (example_body []) else post_ok i cookieHeader ymd)"

definition example_home :: "string response" where
  "example_home = Response 503 (Some [''sid=abc; Path=/'', ''waf=1; HttpOnly'']) ''<html>''"

definition example_now_showing :: "string \<Rightarrow> string response" where
  "example_now_showing cookieHeader = Response 404 (Some [''sid=xyz; Path=/'']) ''<html>''"

text \<open>
  A run that begins at 2025-10-04T13:30:00Z, which is 11:30 pm on Saturday 4 October in
  Melbourne, two and a half hours before the clocks go forward, and one that begins at
  2025-04-05T13:30:00Z, which is 0:30 am on Sunday 6 April, two and a half hours before
  they go back.
\<close>

definition eve_of_daylight_time :: int where
  "eve_of_daylight_time = 1759584600000"

definition last_night_of_daylight_time :: int where
  "last_night_of_daylight_time = 1743859800000"

text \<open>
  An endpoint that lists one session of a title for Sunday 5 October 2025, one for
  Monday 6 October, and none for any other date.
\<close>

definition sunday_showing :: showing where
  "sunday_showing = \<lparr>movie_name = Some ''Movie A'', time_iso = Some ''2025-10-05T08:00:00Z''\<rparr>"

definition monday_showing :: showing where
  "monday_showing = \<lparr>movie_name = Some ''Movie A'', time_iso = Some ''2025-10-06T08:00:00Z''\<rparr>"

definition october_program :: "string \<Rightarrow> showing list" where
  "october_program ymd =
     (if ymd = ''2025-10-05'' then [sunday_showing]
      else if ymd = ''2025-10-06'' then [monday_showing]
      else [])"

definition post_october :: "nat \<Rightarrow> string \<Rightarrow> string \<Rightarrow> gql_body response" where
  "post_october i cookieHeader ymd = Response 200 None (example_body (october_program ymd))"

text \<open>
  Two showings of one title, on 3 and on 23 December 2025 (Melbourne time), with the
  strings \<^verbatim>\<open>toLocaleDateString\<close> and \<^verbatim>\<open>toLocaleTimeString\<close> give for
  them in the locale \<^verbatim>\<open>en-AU\<close>.
\<close>

definition example_formatSession :: "string \<Rightarrow> string" where
  "example_formatSession s =
     (if s = ''2025-12-03T07:00:00Z'' then ''3 December 6:00 pm''
      else if s = ''2025-12-23T07:10:00Z'' then ''23 December 6:10 pm''
      else ''Invalid Date invalid date'')"

definition december_getTime :: "string \<Rightarrow> int option" where
  "december_getTime s =
     (if s = ''2025-12-03T07:00:00Z'' then Some 1764745200000
      else if s = ''2025-12-23T07:10:00Z'' then Some 1766473800000
      else None)"

definition december_showings :: "showing list" where
  "december_showings =
     [\<lparr>movie_name = Some ''Movie A'', time_iso = Some ''2025-12-03T07:00:00Z''\<rparr>,
      \<lparr>movie_name = Some ''Movie A'', time_iso = Some ''2025-12-23T07:10:00Z''\<rparr>]"

definition example_formatDateTime :: "string \<Rightarrow> string" where
  "example_formatDateTime s =
     (if s = ''2025-01-09T00:00:00.000Z'' then ''Thursday 9 January 2025 at 11:00 am AEDT''
      else ''Invalid Date'')"

text \<open>
  A world in which the endpoint forbids every query, while a snapshot is stored and the
  webhook is configured and accepts every POST.
\<close>

definition post_forbidden :: "nat \<Rightarrow> string \<Rightarrow> string \<Rightarrow> gql_body response" where
  "post_forbidden i cookieHeader ymd = Response 403 None (example_body [])"

definition forbidden_world :: world where
  "forbidden_world =
     \<lparr>w_getTime = example_getTime, w_clock = ticking_clock,
      w_formatSession = example_formatSession, w_formatDateTime = example_formatDateTime,
      w_home = example_home, w_now = example_now_showing,
      w_post = post_forbidden, w_tzOffset = melbourne_offset, w_start = example_now,
      w_timestamp = ''2025-01-09T00:00:00.000Z'',
      w_url = Some ''https://maker.ifttt.com/trigger/showtimes'',
      w_webhook = (\<lambda>url msg. True),
      w_cache = Cached [(''Movie A'', [''23 December 6:10 pm''])]\<rparr>"

text \<open>
  A world in which every query is answered and no snapshot is stored, with the webhook
  URL unset.
\<close>

definition first_run_world :: world where
  "first_run_world =
     \<lparr>w_getTime = example_getTime, w_clock = ticking_clock,
      w_formatSession = example_formatSession, w_formatDateTime = example_formatDateTime,
      w_home = example_home, w_now = example_now_showing,
      w_post = post_ok, w_tzOffset = melbourne_offset, w_start = example_now,
      w_timestamp = ''2025-01-09T00:00:00.000Z'',
      w_url = None,
      w_webhook = (\<lambda>url msg. True),
      w_cache = No_File\<rparr>"

section \<open>Properties\<close>

subsection \<open>The future-only filter\<close>

lemma isPast_unparseable: "getTime x = None \<Longrightarrow> isPastShowtime getTime clock x n = (False, n)"
  by (simp add: isPastShowtime_def)

lemma futureTimes_subset:
  "x \<in> set (fst (futureTimes_of getTime clock ts n)) \<Longrightarrow> x \<in> set ts"
  by (induction ts arbitrary: n) (auto simp: case_prod_beta split: if_splits)

lemma futureTimes_kept:
  "x \<in> set (fst (futureTimes_of getTime clock ts n)) \<Longrightarrow>
     getTime x = None \<or> (\<exists>t k. getTime x = Some t \<and> clock k \<le> t)"
proof (induction ts arbitrary: n)
  case Nil
  then show ?case by simp
next
  case (Cons a ts)
  let ?p = "isPastShowtime getTime clock a n"
  show ?case
  proof (cases "x \<in> set (fst (futureTimes_of getTime clock ts (snd ?p)))")
    case True
    then show ?thesis by (rule Cons.IH)
  next
    case False
    with Cons.prems have xa: "x = a" and np: "\<not> fst ?p"
      by (auto simp: case_prod_beta split: if_splits)
    from np show ?thesis unfolding xa
      by (cases "getTime a") (auto simp: isPastShowtime_def not_less)
  qed
qed

lemma futureTimes_unparseable:
  "x \<in> set ts \<Longrightarrow> getTime x = None \<Longrightarrow> x \<in> set (fst (futureTimes_of getTime clock ts n))"
  by (induction ts arbitrary: n) (auto simp: case_prod_beta isPastShowtime_def)

lemma futureTimes_const:
  "fst (futureTimes_of getTime (\<lambda>k. now) ts n) =
     filter (\<lambda>x. case getTime x of None \<Rightarrow> True | Some t \<Rightarrow> \<not> t < now) ts"
  by (induction ts arbitrary: n) (auto simp: case_prod_beta isPastShowtime_def split: option.splits)

lemma set_update_cases:
  "p \<in> set (AList.update k v al) \<Longrightarrow> p = (k, v) \<or> p \<in> set al"
  by (induction al) (auto split: if_splits)

lemma filterPast_loop_distinct:
  "distinct (map fst filtered) \<Longrightarrow>
   distinct (map fst (fst (filterPast_loop getTime clock entries filtered n)))"
  by (induction entries arbitrary: filtered n)
     (auto simp: case_prod_beta AList.distinct_update)

lemma filterPast_loop_entries:
  "(m, ts) \<in> set (fst (filterPast_loop getTime clock entries filtered n)) \<Longrightarrow>
   (m, ts) \<in> set filtered \<or>
   (\<exists>times' k. (m, times') \<in> set entries \<and> ts = fst (futureTimes_of getTime clock times' k)
       \<and> ts \<noteq> [])"
proof (induction entries arbitrary: filtered n)
  case Nil
  then show ?case by simp
next
  case (Cons e entries)
  obtain movie times' where e: "e = (movie, times')" by (cases e)
  let ?f = "futureTimes_of getTime clock times' n"
  let ?filtered = "if length (fst ?f) > 0 then AList.update movie (fst ?f) filtered else filtered"
  from Cons.prems e
  have "(m, ts) \<in> set (fst (filterPast_loop getTime clock entries ?filtered (snd ?f)))"
    by (simp add: case_prod_beta)
  from Cons.IH [OF this] show ?case
  proof
    assume "(m, ts) \<in> set ?filtered"
    then have "(m, ts) \<in> set filtered \<or> ((m, ts) = (movie, fst ?f) \<and> fst ?f \<noteq> [])"
      by (auto split: if_splits dest: set_update_cases)
    then show ?thesis using e by auto
  next
    assume "\<exists>times' k. (m, times') \<in> set entries \<and>
       ts = fst (futureTimes_of getTime clock times' k) \<and> ts \<noteq> []"
    then show ?thesis by auto
  qed
qed

lemma filterPast_loop_other_key:
  "m \<notin> fst ` set entries \<Longrightarrow>
   map_of (fst (filterPast_loop getTime clock entries filtered n)) m = map_of filtered m"
  by (induction entries arbitrary: filtered n)
     (auto simp: case_prod_beta AList.update_conv')

lemma filterPast_loop_unparseable:
  "distinct (map fst entries) \<Longrightarrow> (m, times') \<in> set entries \<Longrightarrow> x \<in> set times' \<Longrightarrow>
   getTime x = None \<Longrightarrow>
   \<exists>ts. map_of (fst (filterPast_loop getTime clock entries filtered n)) m = Some ts \<and> x \<in> set ts"
proof (induction entries arbitrary: filtered n)
  case Nil
  then show ?case by simp
next
  case (Cons e entries)
  obtain movie tms where e: "e = (movie, tms)" by (cases e)
  let ?f = "futureTimes_of getTime clock tms n"
  let ?filtered = "if length (fst ?f) > 0 then AList.update movie (fst ?f) filtered else filtered"
  have step: "fst (filterPast_loop getTime clock (e # entries) filtered n) =
      fst (filterPast_loop getTime clock entries ?filtered (snd ?f))"
    using e by (simp add: case_prod_beta)
  show ?case
  proof (cases "(m, times') \<in> set entries")
    case True
    from Cons.prems(1) have "distinct (map fst entries)" by simp
    from Cons.IH [OF this True Cons.prems(3,4)] show ?thesis
      unfolding step .
  next
    case False
    with Cons.prems(2) e have eq: "movie = m" "tms = times'" by auto
    from Cons.prems(1) e eq have notin: "m \<notin> fst ` set entries" by simp
    have "x \<in> set (fst ?f)"
      using Cons.prems(3,4) eq by (simp add: futureTimes_unparseable)
    moreover from this have "fst ?f \<noteq> []" by auto
    ultimately show ?thesis
      unfolding step using eq
      by (simp add: filterPast_loop_other_key [OF notin] AList.update_conv')
  qed
qed

lemma filterPast_loop_const:
  "fst (filterPast_loop getTime (\<lambda>k. now) entries filtered n) =
   fst (filterPast_loop getTime (\<lambda>k. now) entries filtered 0)"
proof (induction entries arbitrary: filtered n)
  case Nil
  show ?case by simp
next
  case (Cons e entries)
  obtain movie tms where e: "e = (movie, tms)" by (cases e)
  let ?ft = "filter (\<lambda>x. case getTime x of None \<Rightarrow> True | Some t \<Rightarrow> \<not> t < now) tms"
  let ?filtered = "if length ?ft > 0 then AList.update movie ?ft filtered else filtered"
  have "fst (filterPast_loop getTime (\<lambda>k. now) (e # entries) filtered k) =
        fst (filterPast_loop getTime (\<lambda>k. now) entries ?filtered 0)" for k
    unfolding e
    using Cons.IH [of ?filtered "snd (futureTimes_of getTime (\<lambda>k. now) tms k)"]
    by (cases "?ft = []") (simp_all add: case_prod_beta futureTimes_const)
  then show ?case by simp
qed

lemma compare_loop_entries:
  "(m, ts) \<in> set (compare_loop entries other acc) \<Longrightarrow>
   (m, ts) \<in> set acc \<or>
   (\<exists>times'. (m, times') \<in> set entries \<and> set ts \<subseteq> set times' \<and>
      (\<forall>otherTimes. map_of other m = Some otherTimes \<longrightarrow> set ts \<inter> set otherTimes = {}))"
proof (induction entries arbitrary: acc)
  case Nil
  then show ?case by simp
next
  case (Cons e entries)
  obtain movie tms where e: "e = (movie, tms)" by (cases e)
  show ?case
  proof (cases "map_of other movie")
    case None
    with Cons.prems e have "(m, ts) \<in> set (compare_loop entries other (AList.update movie tms acc))"
      by simp
    from Cons.IH [OF this] show ?thesis
    proof
      assume "(m, ts) \<in> set (AList.update movie tms acc)"
      then have "(m, ts) = (movie, tms) \<or> (m, ts) \<in> set acc" by (rule set_update_cases)
      then show ?thesis using None e by auto
    next
      assume "\<exists>times'. (m, times') \<in> set entries \<and> set ts \<subseteq> set times' \<and>
        (\<forall>otherTimes. map_of other m = Some otherTimes \<longrightarrow> set ts \<inter> set otherTimes = {})"
      then show ?thesis by auto
    qed
  next
    case (Some otherTimes)
    let ?d = "filter (\<lambda>t. t \<notin> set otherTimes) tms"
    from Some Cons.prems e
    have "(m, ts) \<in> set (compare_loop entries other
        (if length ?d > 0 then AList.update movie ?d acc else acc))"
      by (simp add: Let_def)
    from Cons.IH [OF this] show ?thesis
    proof
      assume "(m, ts) \<in> set (if length ?d > 0 then AList.update movie ?d acc else acc)"
      then have "(m, ts) = (movie, ?d) \<or> (m, ts) \<in> set acc"
        by (auto split: if_splits dest: set_update_cases)
      then show ?thesis using Some e by auto
    next
      assume "\<exists>times'. (m, times') \<in> set entries \<and> set ts \<subseteq> set times' \<and>
        (\<forall>otherTimes. map_of other m = Some otherTimes \<longrightarrow> set ts \<inter> set otherTimes = {})"
      then show ?thesis by auto
    qed
  qed
qed

lemma compare_loop_same:
  "(\<And>m ts. (m, ts) \<in> set entries \<Longrightarrow> \<exists>otherTimes. map_of other m = Some otherTimes \<and> set ts \<subseteq> set otherTimes) \<Longrightarrow>
   compare_loop entries other acc = acc"
proof (induction entries arbitrary: acc)
  case Nil
  show ?case by simp
next
  case (Cons e entries)
  obtain movie tms where e: "e = (movie, tms)" by (cases e)
  from Cons.prems [of movie tms] e obtain otherTimes
    where o: "map_of other movie = Some otherTimes" "set tms \<subseteq> set otherTimes" by auto
  then have "filter (\<lambda>t. t \<notin> set otherTimes) tms = []"
    by (auto simp: filter_empty_conv)
  with o e show ?case
    using Cons.IH [of acc] Cons.prems by (simp add: Let_def)
qed

lemma compare_loop_other_key:
  "m \<notin> fst ` set entries \<Longrightarrow> map_of (compare_loop entries other acc) m = map_of acc m"
  by (induction entries arbitrary: acc)
     (auto simp: Let_def AList.update_conv' split: option.splits)

lemma compare_loop_reports:
  "distinct (map fst entries) \<Longrightarrow> (m, times') \<in> set entries \<Longrightarrow> x \<in> set times' \<Longrightarrow>
   (\<And>otherTimes. map_of other m = Some otherTimes \<Longrightarrow> x \<notin> set otherTimes) \<Longrightarrow>
   \<exists>ts. map_of (compare_loop entries other acc) m = Some ts \<and> x \<in> set ts"
proof (induction entries arbitrary: acc)
  case Nil
  then show ?case by simp
next
  case (Cons e entries)
  obtain movie tms where e: "e = (movie, tms)" by (cases e)
  show ?case
  proof (cases "(m, times') \<in> set entries")
    case True
    from Cons.prems(1) have d: "distinct (map fst entries)" by simp
    show ?thesis
      unfolding e using Cons.IH [OF d True Cons.prems(3,4)]
      by (simp add: Let_def split: option.splits)
  next
    case False
    with Cons.prems(2) e have eq: "movie = m" "tms = times'" by auto
    from Cons.prems(1) e eq have notin: "m \<notin> fst ` set entries" by simp
    show ?thesis
    proof (cases "map_of other m")
      case None
      then show ?thesis unfolding e eq using Cons.prems(3)
        by (simp add: compare_loop_other_key [OF notin] AList.update_conv')
    next
      case (Some otherTimes)
      with Cons.prems(4) have "x \<notin> set otherTimes" by simp
      with Cons.prems(3) have mem: "x \<in> set (filter (\<lambda>t. t \<notin> set otherTimes) times')"
        by simp
      then have ne: "length (filter (\<lambda>t. t \<notin> set otherTimes) times') > 0"
        by (cases "filter (\<lambda>t. t \<notin> set otherTimes) times'") auto
      have "compare_loop (e # entries) other acc =
          compare_loop entries other
            (AList.update m (filter (\<lambda>t. t \<notin> set otherTimes) times') acc)"
        unfolding e eq using Some ne by (simp add: Let_def)
      then show ?thesis using mem
        by (simp only: compare_loop_other_key [OF notin] AList.update_conv' fun_upd_same) simp
    qed
  qed
qed

lemma filterPast_distinct:
  "distinct (map fst (fst (filterPastShowtimes getTime clock S n)))"
  by (simp add: filterPastShowtimes_def filterPast_loop_distinct)

lemma filterPast_entries:
  assumes "(m, ts) \<in> set (fst (filterPastShowtimes getTime clock S n))"
  shows "\<exists>times' k. (m, times') \<in> set S \<and> ts = fst (futureTimes_of getTime clock times' k) \<and> ts \<noteq> []"
  using filterPast_loop_entries [of m ts getTime clock S "[]" n] assms
  by (simp add: filterPastShowtimes_def)

lemma filterPast_lookup:
  "(m, ts) \<in> set (fst (filterPastShowtimes getTime clock S n)) \<Longrightarrow>
   map_of (fst (filterPastShowtimes getTime clock S n)) m = Some ts"
  by (simp add: filterPast_distinct)

lemma detectChanges_Some:
  "fst (detectChanges getTime clock (Some oldData) newData n) =
     (let fo = filterPastShowtimes getTime clock oldData n;
          fn = filterPastShowtimes getTime clock newData (snd fo);
          addedMap = compare_loop (fst fn) (fst fo) [];
          removedMap = compare_loop (fst fo) (fst fn) []
      in \<lparr>changed = (length (map fst addedMap) > 0 \<or> length (map fst removedMap) > 0),
          isInitial = False, message = None,
          added = Some addedMap, removed = Some removedMap\<rparr>)"
  by (simp add: detectChanges_def case_prod_beta Let_def)

lemma compare_loop_within:
  assumes "(m, ts) \<in> set (compare_loop (fst (filterPastShowtimes getTime clock S n)) other [])"
      and "x \<in> set ts"
  shows "\<exists>times'. (m, times') \<in> set S \<and> x \<in> set times' \<and>
           (getTime x = None \<or> (\<exists>t k. getTime x = Some t \<and> clock k \<le> t))"
proof -
  from compare_loop_entries [OF assms(1)] obtain fts
    where f: "(m, fts) \<in> set (fst (filterPastShowtimes getTime clock S n))" and sub: "set ts \<subseteq> set fts"
    by auto
  from filterPast_entries [OF f] obtain times' k
    where t: "(m, times') \<in> set S" "fts = fst (futureTimes_of getTime clock times' k)" by auto
  from sub assms(2) t(2) have x: "x \<in> set (fst (futureTimes_of getTime clock times' k))" by auto
  from futureTimes_subset [OF x] futureTimes_kept [OF x] t(1) show ?thesis by blast
qed

lemmas example_defs = detectChanges_def filterPastShowtimes_def isPastShowtime_def
  example_getTime_def ticking_clock_def example_now_def

text \<open>
  Claim C2. An instant strictly before "now" is in no title's list of \<open>added\<close> and in
  no title's list of \<open>removed\<close>, whatever the two schedules hold. The source reads
  \<^verbatim>\<open>Date.now()\<close> once for every instant that parses; "now" is any instant that no
  reading of the clock precedes, in particular the instant at which the diff starts.
\<close>

theorem past_instants_absent:
  assumes clock: "\<And>k. now \<le> clock k"
      and x: "getTime x = Some t" "t < now"
  shows "\<exists>addedMap removedMap.
           added (fst (detectChanges getTime clock (Some oldData) newData n)) = Some addedMap \<and>
           removed (fst (detectChanges getTime clock (Some oldData) newData n)) = Some removedMap \<and>
           (\<forall>m ts. (m, ts) \<in> set addedMap \<longrightarrow> x \<notin> set ts) \<and>
           (\<forall>m ts. (m, ts) \<in> set removedMap \<longrightarrow> x \<notin> set ts)"
proof -
  have never: "\<not> (getTime x = None \<or> (\<exists>t k. getTime x = Some t \<and> clock k \<le> t))"
  proof
    assume "getTime x = None \<or> (\<exists>t k. getTime x = Some t \<and> clock k \<le> t)"
    with x(1) obtain k where "clock k \<le> t" by auto
    with clock [of k] x(2) show False by simp
  qed
  have absent: "x \<notin> set ts"
    if "(m, ts) \<in> set (compare_loop (fst (filterPastShowtimes getTime clock S k)) other [])"
    for m ts S k other
  proof
    assume "x \<in> set ts"
    from compare_loop_within [OF that this] never show False by blast
  qed
  let ?fo = "filterPastShowtimes getTime clock oldData n"
  let ?fn = "filterPastShowtimes getTime clock newData (snd ?fo)"
  let ?A = "compare_loop (fst ?fn) (fst ?fo) []"
  let ?R = "compare_loop (fst ?fo) (fst ?fn) []"
  have a: "added (fst (detectChanges getTime clock (Some oldData) newData n)) = Some ?A"
    by (simp add: detectChanges_Some Let_def)
  have r: "removed (fst (detectChanges getTime clock (Some oldData) newData n)) = Some ?R"
    by (simp add: detectChanges_Some Let_def)
  have "\<forall>m ts. (m, ts) \<in> set ?A \<longrightarrow> x \<notin> set ts"
    by (intro allI impI) (rule absent [of _ _ newData "snd ?fo" "fst ?fo"])
  moreover have "\<forall>m ts. (m, ts) \<in> set ?R \<longrightarrow> x \<notin> set ts"
    by (intro allI impI) (rule absent [of _ _ oldData n "fst ?fn"])
  ultimately show ?thesis
    unfolding a r by blast
qed

theorem past_instants_absent_witness:
  "(\<forall>k. example_now \<le> ticking_clock k) \<and>
   example_getTime ''2025-01-01T10:00:00Z'' = Some 1735725600000 \<and>
   1735725600000 < example_now \<and>
   fst (detectChanges example_getTime ticking_clock
      (Some [(''Movie A'', [''2025-01-01T10:00:00Z'', ''2025-01-10T10:00:00Z''])])
      [(''Movie A'', [''2025-01-10T10:00:00Z'', ''2025-01-12T10:00:00Z''])] 0) =
     \<lparr>changed = True, isInitial = False, message = None,
      added = Some [(''Movie A'', [''2025-01-12T10:00:00Z''])], removed = Some []\<rparr> \<and>
   (\<exists>addedMap removedMap.
      added (fst (detectChanges example_getTime ticking_clock
        (Some [(''Movie A'', [''2025-01-01T10:00:00Z'', ''2025-01-10T10:00:00Z''])])
        [(''Movie A'', [''2025-01-10T10:00:00Z'', ''2025-01-12T10:00:00Z''])] 0)) = Some addedMap \<and>
      removed (fst (detectChanges example_getTime ticking_clock
        (Some [(''Movie A'', [''2025-01-01T10:00:00Z'', ''2025-01-10T10:00:00Z''])])
        [(''Movie A'', [''2025-01-10T10:00:00Z'', ''2025-01-12T10:00:00Z''])] 0)) = Some removedMap \<and>
      (\<forall>m ts. (m, ts) \<in> set addedMap \<longrightarrow> ''2025-01-01T10:00:00Z'' \<notin> set ts) \<and>
      (\<forall>m ts. (m, ts) \<in> set removedMap \<longrightarrow> ''2025-01-01T10:00:00Z'' \<notin> set ts))"
proof -
  have h1: "example_now \<le> ticking_clock k" for k
    by (simp add: ticking_clock_def)
  have h2: "example_getTime ''2025-01-01T10:00:00Z'' = Some 1735725600000"
    by (simp add: example_getTime_def)
  have h3: "1735725600000 < example_now"
    by (simp add: example_now_def)
  have ev: "fst (detectChanges example_getTime ticking_clock
      (Some [(''Movie A'', [''2025-01-01T10:00:00Z'', ''2025-01-10T10:00:00Z''])])
      [(''Movie A'', [''2025-01-10T10:00:00Z'', ''2025-01-12T10:00:00Z''])] 0) =
     \<lparr>changed = True, isInitial = False, message = None,
      added = Some [(''Movie A'', [''2025-01-12T10:00:00Z''])], removed = Some []\<rparr>"
    by (simp add: example_defs)
  from h1 h2 h3 ev
    past_instants_absent [of example_now ticking_clock example_getTime
      "''2025-01-01T10:00:00Z''" 1735725600000
      "[(''Movie A'', [''2025-01-01T10:00:00Z'', ''2025-01-10T10:00:00Z''])]"
      "[(''Movie A'', [''2025-01-10T10:00:00Z'', ''2025-01-12T10:00:00Z''])]" 0, OF h1 h2 h3]
  show ?thesis by blast
qed

text \<open>
  When the clock reads one and the same instant \<open>now\<close> at every reading taken during
  the diff, diffing a schedule against itself reports no change: \<open>added\<close> and
  \<open>removed\<close> are empty.
\<close>

theorem self_diff_unchanged:
  "fst (detectChanges getTime (\<lambda>k. now) (Some S) S n) =
     \<lparr>changed = False, isInitial = False, message = None, added = Some [], removed = Some []\<rparr>"
proof -
  let ?F = "fst (filterPastShowtimes getTime (\<lambda>k. now) S 0)"
  have same: "fst (filterPastShowtimes getTime (\<lambda>k. now) S k) = ?F" for k
    unfolding filterPastShowtimes_def by (rule filterPast_loop_const)
  have "compare_loop ?F ?F [] = []"
  proof (rule compare_loop_same)
    fix m ts assume "(m, ts) \<in> set ?F"
    then have "map_of ?F m = Some ts" by (rule filterPast_lookup)
    then show "\<exists>otherTimes. map_of ?F m = Some otherTimes \<and> set ts \<subseteq> set otherTimes" by simp
  qed
  then show ?thesis
    unfolding detectChanges_Some Let_def
    by (simp add: same [of n] same [of "snd (filterPastShowtimes getTime (\<lambda>k. now) S n)"])
qed

text \<open>
  Claim C3 fails when the clock moves during the diff. \<^verbatim>\<open>detectChanges\<close> filters
  the previous schedule and then the current one, and \<^verbatim>\<open>isPastShowtime\<close> reads
  \<^verbatim>\<open>Date.now()\<close> again at every instant that parses. When the first reading is
  the time of a showing and the second reading is one millisecond later, the showing is
  kept in the previous schedule and dropped from the current one: the schedule diffed
  against itself reports it as removed, with \<open>changed = True\<close>.
\<close>

theorem self_diff_across_showtime:
  "fst (detectChanges example_getTime (\<lambda>k. 1736503200000 + int k)
      (Some [(''Movie A'', [''2025-01-10T10:00:00Z''])])
      [(''Movie A'', [''2025-01-10T10:00:00Z''])] 0) =
   \<lparr>changed = True, isInitial = False, message = None,
    added = Some [], removed = Some [(''Movie A'', [''2025-01-10T10:00:00Z''])]\<rparr>"
  by (simp add: detectChanges_def filterPastShowtimes_def isPastShowtime_def example_getTime_def)

lemma showtimeCount_sum: "foldl (\<lambda>sum arr. sum + length arr) a xs = a + sum_list (map length xs)"
  by (induction xs arbitrary: a) simp_all

text \<open>
  Claim C4. With no previous snapshot the result is the initial one, whatever the current
  schedule holds (the empty one included): \<open>isInitial\<close> is true, the message carries
  the number of distinct titles and the total number of instants, and the fields
  \<open>added\<close> and \<open>removed\<close> are absent. The keys of a JavaScript object are distinct,
  which is the hypothesis on the association list.
\<close>

theorem initial_diff_summary:
  assumes "distinct (map fst newData)"
  shows "fst (detectChanges getTime clock None newData n) =
     \<lparr>changed = True, isInitial = True,
      message = Some (initial_message (card (fst ` set newData))
                        (sum_list (map (length \<circ> snd) newData))),
      added = None, removed = None\<rparr>"
proof -
  from assms have "card (fst ` set newData) = length newData"
    by (metis distinct_card length_map set_map)
  then show ?thesis
    by (simp add: detectChanges_def movieCount_of_def showtimeCount_of_def showtimeCount_sum)
qed

theorem initial_diff_summary_witness:
  "distinct (map fst [(''Movie A'', [''2025-01-10T10:00:00Z'', ''2025-01-12T10:00:00Z''])]) \<and>
   fst (detectChanges example_getTime ticking_clock None
      [(''Movie A'', [''2025-01-10T10:00:00Z'', ''2025-01-12T10:00:00Z''])] 0) =
     \<lparr>changed = True, isInitial = True,
      message = Some ''Initial check: 1 movies with 2 showtimes found'',
      added = None, removed = None\<rparr> \<and>
   distinct (map fst ([] :: schedule)) \<and>
   fst (detectChanges example_getTime ticking_clock None [] 0) =
     \<lparr>changed = True, isInitial = True,
      message = Some ''Initial check: 0 movies with 0 showtimes found'',
      added = None, removed = None\<rparr>"
proof -
  have d1: "distinct (map fst [(''Movie A'', [''2025-01-10T10:00:00Z'', ''2025-01-12T10:00:00Z''])])"
    by simp
  have d0: "distinct (map fst ([] :: schedule))" by simp
  show ?thesis
    using d1 d0
      initial_diff_summary [OF d1, of example_getTime ticking_clock 0]
      initial_diff_summary [OF d0, of example_getTime ticking_clock 0]
    by (simp add: initial_message_def)
qed

text \<open>
  Claim C9. For every title, no instant is both in its \<open>added\<close> list and in its
  \<open>removed\<close> list.
\<close>

theorem added_removed_disjoint:
  "\<exists>addedMap removedMap.
     added (fst (detectChanges getTime clock (Some oldData) newData n)) = Some addedMap \<and>
     removed (fst (detectChanges getTime clock (Some oldData) newData n)) = Some removedMap \<and>
     (\<forall>m a r. (m, a) \<in> set addedMap \<and> (m, r) \<in> set removedMap \<longrightarrow> set a \<inter> set r = {})"
proof -
  let ?fo = "filterPastShowtimes getTime clock oldData n"
  let ?fn = "filterPastShowtimes getTime clock newData (snd ?fo)"
  have "set a \<inter> set r = {}"
    if a: "(m, a) \<in> set (compare_loop (fst ?fn) (fst ?fo) [])"
    and r: "(m, r) \<in> set (compare_loop (fst ?fo) (fst ?fn) [])" for m a r
  proof -
    from compare_loop_entries [OF a] obtain nt
      where nt: "(m, nt) \<in> set (fst ?fn)" "set a \<subseteq> set nt" by auto
    from compare_loop_entries [OF r]
    have "\<forall>otherTimes. map_of (fst ?fn) m = Some otherTimes \<longrightarrow> set r \<inter> set otherTimes = {}"
      by auto
    with filterPast_lookup [OF nt(1)] have "set r \<inter> set nt = {}" by simp
    with nt(2) show ?thesis by auto
  qed
  then have "\<forall>m a r. (m, a) \<in> set (compare_loop (fst ?fn) (fst ?fo) []) \<and>
      (m, r) \<in> set (compare_loop (fst ?fo) (fst ?fn) []) \<longrightarrow> set a \<inter> set r = {}"
    by blast
  moreover have "added (fst (detectChanges getTime clock (Some oldData) newData n)) =
      Some (compare_loop (fst ?fn) (fst ?fo) [])"
    by (simp add: detectChanges_Some Let_def)
  moreover have "removed (fst (detectChanges getTime clock (Some oldData) newData n)) =
      Some (compare_loop (fst ?fo) (fst ?fn) [])"
    by (simp add: detectChanges_Some Let_def)
  ultimately show ?thesis by simp
qed

theorem added_removed_disjoint_witness:
  "fst (detectChanges example_getTime ticking_clock
      (Some [(''Movie A'', [''2025-01-10T10:00:00Z'', ''not a date''])])
      [(''Movie A'', [''2025-01-10T10:00:00Z'', ''2025-01-12T10:00:00Z''])] 0) =
     \<lparr>changed = True, isInitial = False, message = None,
      added = Some [(''Movie A'', [''2025-01-12T10:00:00Z''])],
      removed = Some [(''Movie A'', [''not a date''])]\<rparr> \<and>
   set [''2025-01-12T10:00:00Z''] \<inter> set [''not a date''] = {}"
proof -
  let ?old = "[(''Movie A'', [''2025-01-10T10:00:00Z'', ''not a date''])]"
  let ?new = "[(''Movie A'', [''2025-01-10T10:00:00Z'', ''2025-01-12T10:00:00Z''])]"
  have ev: "fst (detectChanges example_getTime ticking_clock (Some ?old) ?new 0) =
     \<lparr>changed = True, isInitial = False, message = None,
      added = Some [(''Movie A'', [''2025-01-12T10:00:00Z''])],
      removed = Some [(''Movie A'', [''not a date''])]\<rparr>"
    by (simp add: example_defs)
  from added_removed_disjoint [of example_getTime ticking_clock ?old ?new 0]
  obtain addedMap removedMap where
    a: "added (fst (detectChanges example_getTime ticking_clock (Some ?old) ?new 0)) = Some addedMap" and
    r: "removed (fst (detectChanges example_getTime ticking_clock (Some ?old) ?new 0)) = Some removedMap" and
    d: "\<forall>m a r. (m, a) \<in> set addedMap \<and> (m, r) \<in> set removedMap \<longrightarrow> set a \<inter> set r = {}"
    by blast
  from a ev have "addedMap = [(''Movie A'', [''2025-01-12T10:00:00Z''])]" by simp
  moreover from r ev have "removedMap = [(''Movie A'', [''not a date''])]" by simp
  ultimately have "set [''2025-01-12T10:00:00Z''] \<inter> set [''not a date''] = {}"
    using d by simp
  with ev show ?thesis by blast
qed

text \<open>
  Claim C10. An instant whose string does not parse is classified as not past, so the
  filter keeps it under its title; when the other schedule does not hold it under that
  title, it is reported in \<open>removed\<close> (from the previous schedule) or in
  \<open>added\<close> (from the current one).
\<close>

theorem unparseable_retained:
  assumes "getTime x = None"
  shows "fst (isPastShowtime getTime clock x n) = False \<and>
    (\<forall>S m ts k. distinct (map fst S) \<and> (m, ts) \<in> set S \<and> x \<in> set ts \<longrightarrow>
       (\<exists>kept. map_of (fst (filterPastShowtimes getTime clock S k)) m = Some kept \<and> x \<in> set kept)) \<and>
    (\<forall>oldData newData m ts k.
       distinct (map fst oldData) \<and> (m, ts) \<in> set oldData \<and> x \<in> set ts \<and>
       (\<forall>ts'. (m, ts') \<in> set newData \<longrightarrow> x \<notin> set ts') \<longrightarrow>
       (\<exists>removedMap r.
          removed (fst (detectChanges getTime clock (Some oldData) newData k)) = Some removedMap \<and>
          map_of removedMap m = Some r \<and> x \<in> set r)) \<and>
    (\<forall>oldData newData m ts k.
       distinct (map fst newData) \<and> (m, ts) \<in> set newData \<and> x \<in> set ts \<and>
       (\<forall>ts'. (m, ts') \<in> set oldData \<longrightarrow> x \<notin> set ts') \<longrightarrow>
       (\<exists>addedMap a.
          added (fst (detectChanges getTime clock (Some oldData) newData k)) = Some addedMap \<and>
          map_of addedMap m = Some a \<and> x \<in> set a))"
proof -
  have kept: "\<exists>kept. map_of (fst (filterPastShowtimes getTime clock S k)) m = Some kept \<and> x \<in> set kept"
    if "distinct (map fst S)" "(m, ts) \<in> set S" "x \<in> set ts" for S m ts k
    unfolding filterPastShowtimes_def
    using that assms by (rule filterPast_loop_unparseable)
  have missing: "x \<notin> set otherTimes"
    if "\<forall>ts'. (m, ts') \<in> set S \<longrightarrow> x \<notin> set ts'"
       "map_of (fst (filterPastShowtimes getTime clock S k)) m = Some otherTimes"
    for S m k otherTimes
  proof -
    from that(2) have "(m, otherTimes) \<in> set (fst (filterPastShowtimes getTime clock S k))"
      by (rule map_of_SomeD)
    from filterPast_entries [OF this] obtain times' j
      where t: "(m, times') \<in> set S" "otherTimes = fst (futureTimes_of getTime clock times' j)"
      by auto
    from that(1) t(1) have "x \<notin> set times'" by simp
    with t(2) show ?thesis by (auto dest: futureTimes_subset)
  qed
  have report: "\<exists>r. map_of (compare_loop (fst (filterPastShowtimes getTime clock S k))
                 (fst (filterPastShowtimes getTime clock S' k')) []) m = Some r \<and> x \<in> set r"
    if "distinct (map fst S)" "(m, ts) \<in> set S" "x \<in> set ts"
       "\<forall>ts'. (m, ts') \<in> set S' \<longrightarrow> x \<notin> set ts'" for S S' m ts k k'
  proof -
    from kept [OF that(1,2,3), of k] obtain kp
      where kp: "map_of (fst (filterPastShowtimes getTime clock S k)) m = Some kp" "x \<in> set kp"
      by auto
    from kp(1) have "(m, kp) \<in> set (fst (filterPastShowtimes getTime clock S k))"
      by (rule map_of_SomeD)
    from compare_loop_reports [OF filterPast_distinct this kp(2) missing [OF that(4)]]
    show ?thesis .
  qed
  have 1: "fst (isPastShowtime getTime clock x n) = False"
    using assms by (simp add: isPast_unparseable)
  have 2: "\<forall>S m ts k. distinct (map fst S) \<and> (m, ts) \<in> set S \<and> x \<in> set ts \<longrightarrow>
       (\<exists>kept. map_of (fst (filterPastShowtimes getTime clock S k)) m = Some kept \<and> x \<in> set kept)"
    using kept by blast
  have 3: "\<exists>removedMap r.
          removed (fst (detectChanges getTime clock (Some oldData) newData k)) = Some removedMap \<and>
          map_of removedMap m = Some r \<and> x \<in> set r"
    if "distinct (map fst oldData) \<and> (m, ts) \<in> set oldData \<and> x \<in> set ts \<and>
       (\<forall>ts'. (m, ts') \<in> set newData \<longrightarrow> x \<notin> set ts')" for oldData newData m ts k
  proof -
    let ?fo = "filterPastShowtimes getTime clock oldData k"
    let ?fn = "filterPastShowtimes getTime clock newData (snd ?fo)"
    have "removed (fst (detectChanges getTime clock (Some oldData) newData k)) =
        Some (compare_loop (fst ?fo) (fst ?fn) [])"
      by (simp add: detectChanges_Some Let_def)
    moreover from that
    have "\<exists>r. map_of (compare_loop (fst ?fo) (fst ?fn) []) m = Some r \<and> x \<in> set r"
      by (intro report [of oldData m ts newData k "snd ?fo"]) simp_all
    ultimately show ?thesis by simp
  qed
  have 4: "\<exists>addedMap a.
          added (fst (detectChanges getTime clock (Some oldData) newData k)) = Some addedMap \<and>
          map_of addedMap m = Some a \<and> x \<in> set a"
    if "distinct (map fst newData) \<and> (m, ts) \<in> set newData \<and> x \<in> set ts \<and>
       (\<forall>ts'. (m, ts') \<in> set oldData \<longrightarrow> x \<notin> set ts')" for oldData newData m ts k
  proof -
    let ?fo = "filterPastShowtimes getTime clock oldData k"
    let ?fn = "filterPastShowtimes getTime clock newData (snd ?fo)"
    have "added (fst (detectChanges getTime clock (Some oldData) newData k)) =
        Some (compare_loop (fst ?fn) (fst ?fo) [])"
      by (simp add: detectChanges_Some Let_def)
    moreover from that
    have "\<exists>r. map_of (compare_loop (fst ?fn) (fst ?fo) []) m = Some r \<and> x \<in> set r"
      by (intro report [of newData m ts oldData "snd ?fo" k]) simp_all
    ultimately show ?thesis by simp
  qed
  from 1 2 3 4 show ?thesis by blast
qed

theorem unparseable_retained_witness:
  "example_getTime ''not a date'' = None \<and>
   fst (isPastShowtime example_getTime ticking_clock ''not a date'' 0) = False \<and>
   (\<exists>kept. map_of (fst (filterPastShowtimes example_getTime ticking_clock
        [(''Movie A'', [''2025-01-01T10:00:00Z'', ''not a date''])] 0)) ''Movie A'' = Some kept \<and>
      ''not a date'' \<in> set kept) \<and>
   (\<exists>removedMap r.
      removed (fst (detectChanges example_getTime ticking_clock
        (Some [(''Movie A'', [''2025-01-01T10:00:00Z'', ''not a date''])])
        [(''Movie A'', [''2025-01-10T10:00:00Z''])] 0)) = Some removedMap \<and>
      map_of removedMap ''Movie A'' = Some r \<and> ''not a date'' \<in> set r) \<and>
   fst (filterPastShowtimes example_getTime ticking_clock
        [(''Movie A'', [''2025-01-01T10:00:00Z'', ''not a date''])] 0) =
     [(''Movie A'', [''not a date''])]"
proof -
  let ?old = "[(''Movie A'', [''2025-01-01T10:00:00Z'', ''not a date''])]"
  let ?new = "[(''Movie A'', [''2025-01-10T10:00:00Z''])]"
  have h: "example_getTime ''not a date'' = None"
    by (simp add: example_getTime_def)
  note inst = unparseable_retained [of example_getTime "''not a date''" ticking_clock 0, OF h]
  have pre2: "distinct (map fst ?old) \<and> (''Movie A'', [''2025-01-01T10:00:00Z'', ''not a date'']) \<in> set ?old \<and>
      ''not a date'' \<in> set [''2025-01-01T10:00:00Z'', ''not a date'']"
    by simp
  have pre3: "\<forall>ts'. (''Movie A'', ts') \<in> set ?new \<longrightarrow> ''not a date'' \<notin> set ts'"
    by simp
  from inst have c1: "fst (isPastShowtime example_getTime ticking_clock ''not a date'' 0) = False"
    by blast
  from inst pre2 have c2: "\<exists>kept. map_of (fst (filterPastShowtimes example_getTime ticking_clock ?old 0))
      ''Movie A'' = Some kept \<and> ''not a date'' \<in> set kept"
    by blast
  from inst pre2 pre3 have c3: "\<exists>removedMap r.
      removed (fst (detectChanges example_getTime ticking_clock (Some ?old) ?new 0)) = Some removedMap \<and>
      map_of removedMap ''Movie A'' = Some r \<and> ''not a date'' \<in> set r"
    by blast
  have ev: "fst (filterPastShowtimes example_getTime ticking_clock ?old 0) =
     [(''Movie A'', [''not a date''])]"
    by (simp add: filterPastShowtimes_def isPastShowtime_def example_getTime_def
        ticking_clock_def example_now_def)
  from h c1 c2 c3 ev show ?thesis by blast
qed

subsection \<open>Session priming\<close>

lemma split_on_hd: "hd (split_on c s) = takeWhile (\<lambda>x. x \<noteq> c) s"
  by (subst split_on.simps) simp

lemma split_on_tl:
  "tl (split_on c s) =
     (case dropWhile (\<lambda>x. x \<noteq> c) s of [] \<Rightarrow> [] | sep # rest \<Rightarrow> split_on c rest)"
  by (subst split_on.simps) simp

lemma split_on_nonempty: "split_on c s \<noteq> []"
  by (subst split_on.simps) simp

lemma join_with_Cons:
  "join_with sep (p # ps) = (if ps = [] then p else p @ sep @ join_with sep ps)"
  by (cases ps) simp_all

lemma join_split: "join_with [c] (split_on c s) = s"
proof (induction c s rule: split_on.induct)
  case (1 c s)
  show ?case
  proof (cases "dropWhile (\<lambda>x. x \<noteq> c) s")
    case Nil
    then have "takeWhile (\<lambda>x. x \<noteq> c) s = s"
      by simp
    with Nil show ?thesis by (subst split_on.simps) (simp del: dropWhile_eq_Nil_conv)
  next
    case (Cons sep rest)
    then have "sep = c"
      using hd_dropWhile [of "\<lambda>x. x \<noteq> c" s] by simp
    have "s = takeWhile (\<lambda>x. x \<noteq> c) s @ dropWhile (\<lambda>x. x \<noteq> c) s" by simp
    then have s: "s = takeWhile (\<lambda>x. x \<noteq> c) s @ c # rest"
      using Cons \<open>sep = c\<close> by simp
    have "join_with [c] (split_on c s) =
        takeWhile (\<lambda>x. x \<noteq> c) s @ [c] @ join_with [c] (split_on c rest)"
      using Cons by (subst split_on.simps) (simp add: join_with_Cons split_on_nonempty)
    also have "\<dots> = takeWhile (\<lambda>x. x \<noteq> c) s @ c # rest"
      using "1.IH" [OF Cons] by simp
    finally show ?thesis using s by simp
  qed
qed

lemma join_tl_split:
  "join_with [c] (tl (split_on c s)) = drop 1 (dropWhile (\<lambda>x. x \<noteq> c) s)"
proof (cases "dropWhile (\<lambda>x. x \<noteq> c) s")
  case Nil
  then show ?thesis by (simp add: split_on_tl del: dropWhile_eq_Nil_conv)
next
  case (Cons sep rest)
  then show ?thesis by (simp add: split_on_tl join_split)
qed

lemma cookie_kv_eq:
  "cookie_kv kv =
     (takeWhile (\<lambda>x. x \<noteq> CHR ''='') (js_trim kv),
      drop 1 (dropWhile (\<lambda>x. x \<noteq> CHR ''='') (js_trim kv)))"
  using join_tl_split [of "CHR ''=''" "js_trim kv"]
  by (simp add: cookie_kv_def Let_def split_on_hd)

lemma trim_prefix:
  "\<exists>tail. dropWhile is_space s = js_trim s @ tail"
proof -
  let ?d = "dropWhile is_space s"
  have "rev ?d = takeWhile is_space (rev ?d) @ dropWhile is_space (rev ?d)" by simp
  then have "?d = rev (dropWhile is_space (rev ?d)) @ rev (takeWhile is_space (rev ?d))"
    by (metis rev_append rev_rev_ident)
  then show ?thesis unfolding js_trim_def by blast
qed

lemma trim_subset: "set (js_trim s) \<subseteq> set s"
proof -
  obtain tail where "dropWhile is_space s = js_trim s @ tail" using trim_prefix by blast
  then have "set (js_trim s) \<subseteq> set (dropWhile is_space s)" by simp
  also have "\<dots> \<subseteq> set s" by (auto dest: set_dropWhileD)
  finally show ?thesis .
qed

lemma trim_ends:
  assumes "js_trim s \<noteq> []"
  shows "\<not> is_space (hd (js_trim s))" and "\<not> is_space (last (js_trim s))"
proof -
  let ?d = "dropWhile is_space s"
  let ?e = "dropWhile is_space (rev ?d)"
  have t: "js_trim s = rev ?e" by (simp add: js_trim_def)
  with assms have e: "?e \<noteq> []" by simp
  obtain tail where tail: "?d = js_trim s @ tail" using trim_prefix by blast
  with assms have d: "?d \<noteq> []" by auto
  from tail assms have "hd (js_trim s) = hd ?d" by (metis hd_append2)
  with hd_dropWhile [OF d] show "\<not> is_space (hd (js_trim s))" by simp
  from t e have "last (js_trim s) = hd ?e" by (simp add: last_rev)
  with hd_dropWhile [OF e] show "\<not> is_space (last (js_trim s))" by simp
qed

lemma trim_id:
  assumes "s \<noteq> []" "\<not> is_space (hd s)" "\<not> is_space (last s)"
  shows "js_trim s = s"
proof -
  from assms(1,2) have d: "dropWhile is_space s = s" by (cases s) auto
  from assms(1,3) have "dropWhile is_space (rev s) = rev s"
    by (cases "rev s") (auto simp: last_rev [symmetric] hd_rev)
  with d show ?thesis by (simp add: js_trim_def)
qed

lemma trim_leading_space: "is_space x \<Longrightarrow> js_trim (x # s) = js_trim s"
  by (simp add: js_trim_def)

lemma space_is_space: "is_space CHR '' ''"
  by (simp add: is_space_def)

lemma eq_not_space: "\<not> is_space CHR ''=''"
  by (simp add: is_space_def)

lemma takeWhile_until: "c \<notin> set a \<Longrightarrow> takeWhile (\<lambda>x. x \<noteq> c) (a @ c # b) = a"
  by (induction a) auto

lemma dropWhile_until: "c \<notin> set a \<Longrightarrow> dropWhile (\<lambda>x. x \<noteq> c) (a @ c # b) = c # b"
  by (induction a) auto

lemma takeWhile_absent: "c \<notin> set a \<Longrightarrow> takeWhile (\<lambda>x. x \<noteq> c) a = a"
  by (induction a) auto

lemma dropWhile_absent: "c \<notin> set a \<Longrightarrow> dropWhile (\<lambda>x. x \<noteq> c) a = []"
  by (induction a) auto

lemma cookie_kv_wf:
  assumes "CHR '';'' \<notin> set kv" "cookie_kv kv = (k, v)" "k \<noteq> []"
  shows "wf_cookie (k, v)"
proof -
  let ?t = "js_trim kv"
  let ?P = "\<lambda>x. x \<noteq> CHR ''=''"
  from assms(2) have k: "k = takeWhile ?P ?t" and v: "v = drop 1 (dropWhile ?P ?t)"
    by (simp_all add: cookie_kv_eq)
  have t: "?t = k @ dropWhile ?P ?t" unfolding k by simp
  with assms(3) have tne: "?t \<noteq> []" by auto
  from assms(1) trim_subset [of kv] have semi: "CHR '';'' \<notin> set ?t" by auto
  have "set k \<subseteq> set ?t" unfolding k by (auto dest: set_takeWhileD)
  with semi have 1: "CHR '';'' \<notin> set k" by auto
  have 2: "CHR ''='' \<notin> set k" unfolding k by (auto dest: set_takeWhileD)
  from t assms(3) have "hd ?t = hd k" by (metis hd_append2)
  with trim_ends(1) [OF tne] have 3: "\<not> is_space (hd k)" by simp
  have "set v \<subseteq> set ?t" unfolding v by (auto dest: in_set_dropD set_dropWhileD)
  with semi have 4: "CHR '';'' \<notin> set v" by auto
  have 5: "v = [] \<or> \<not> is_space (last v)"
  proof (cases "v = []")
    case True
    then show ?thesis by simp
  next
    case False
    then obtain sep where d: "dropWhile ?P ?t = sep # v"
      unfolding v by (cases "dropWhile ?P ?t") auto
    with t have "?t = k @ sep # v" by simp
    with False have "last ?t = last v" by simp
    with trim_ends(2) [OF tne] show ?thesis by simp
  qed
  from assms(3) 1 2 3 4 5 show ?thesis by (simp add: wf_cookie_def)
qed

lemma entry_trim:
  assumes "wf_cookie (k, v)" "pre = [] \<or> pre = '' ''"
  shows "js_trim (pre @ k @ CHR ''='' # v) = k @ CHR ''='' # v"
proof -
  let ?e = "k @ CHR ''='' # v"
  from assms(1) have k: "k \<noteq> []" "\<not> is_space (hd k)" and v: "v = [] \<or> \<not> is_space (last v)"
    by (simp_all add: wf_cookie_def)
  from k have h: "\<not> is_space (hd ?e)" by simp
  from v have l: "\<not> is_space (last ?e)" by (auto simp: eq_not_space)
  have "js_trim ?e = ?e" using h l by (intro trim_id) simp_all
  with assms(2) show ?thesis
    by (auto simp: trim_leading_space [OF space_is_space])
qed

lemma entry_kv:
  assumes "wf_cookie (k, v)" "pre = [] \<or> pre = '' ''"
  shows "cookie_kv (pre @ k @ CHR ''='' # v) = (k, v)"
proof -
  from assms(1) have "CHR ''='' \<notin> set k" by (simp add: wf_cookie_def)
  then have "takeWhile (\<lambda>x. x \<noteq> CHR ''='') (k @ CHR ''='' # v) = k"
    and "dropWhile (\<lambda>x. x \<noteq> CHR ''='') (k @ CHR ''='' # v) = CHR ''='' # v"
    by (simp_all add: takeWhile_until dropWhile_until)
  then show ?thesis
    by (simp add: cookie_kv_eq entry_trim [OF assms])
qed

lemma entry_set:
  assumes "wf_cookie (k, v)" "pre = [] \<or> pre = '' ''"
  shows "set_cookie_pair (pre @ k @ CHR ''='' # v) acc = AList.update k v acc"
proof -
  from assms(1) have "k \<noteq> []" by (simp add: wf_cookie_def)
  then show ?thesis
    unfolding set_cookie_pair_def entry_kv [OF assms] by simp
qed

lemma split_on_single: "c \<notin> set a \<Longrightarrow> split_on c a = [a]"
  by (subst split_on.simps) (simp add: takeWhile_absent dropWhile_absent)

lemma split_on_append: "c \<notin> set a \<Longrightarrow> split_on c (a @ c # b) = a # split_on c b"
  by (subst split_on.simps) (simp add: takeWhile_until dropWhile_until)

lemma split_on_pieces: "p \<in> set (split_on c s) \<Longrightarrow> c \<notin> set p"
proof (induction c s arbitrary: p rule: split_on.induct)
  case (1 c s)
  show ?case
  proof (cases "dropWhile (\<lambda>x. x \<noteq> c) s")
    case Nil
    then have "split_on c s = [takeWhile (\<lambda>x. x \<noteq> c) s]"
      by (subst split_on.simps) (simp only: list.case)
    with "1.prems" show ?thesis by (auto dest: set_takeWhileD)
  next
    case (Cons sep rest)
    then have "split_on c s = takeWhile (\<lambda>x. x \<noteq> c) s # split_on c rest"
      by (subst split_on.simps) (simp only: list.case)
    with "1.prems" have "p = takeWhile (\<lambda>x. x \<noteq> c) s \<or> p \<in> set (split_on c rest)" by simp
    then show ?thesis
    proof
      assume "p = takeWhile (\<lambda>x. x \<noteq> c) s"
      then show ?thesis by (auto dest: set_takeWhileD)
    next
      assume "p \<in> set (split_on c rest)"
      with Cons show ?thesis by (rule "1.IH")
    qed
  qed
qed

lemma cookie_header_Cons:
  "cookie_header ((k, v) # m) =
     (k @ CHR ''='' # v) @ (if m = [] then [] else ''; '' @ cookie_header m)"
  by (simp add: cookie_header_def join_with_Cons)

lemma fold_header_pieces:
  assumes "\<forall>p \<in> set m. wf_cookie p" "m \<noteq> []" "pre = [] \<or> pre = '' ''"
  shows "fold set_cookie_pair (split_on CHR '';'' (pre @ cookie_header m)) acc =
         fold (\<lambda>(k, v). AList.update k v) m acc"
  using assms
proof (induction m arbitrary: pre acc)
  case Nil
  then show ?case by simp
next
  case (Cons e m)
  obtain k v where e: "e = (k, v)" by (cases e)
  from Cons.prems(1) e have wf: "wf_cookie (k, v)" by simp
  from wf Cons.prems(3) have semi: "CHR '';'' \<notin> set (pre @ k @ CHR ''='' # v)"
    by (auto simp: wf_cookie_def)
  show ?case
  proof (cases "m = []")
    case True
    have "pre @ cookie_header (e # m) = pre @ k @ CHR ''='' # v"
      using True e by (simp add: cookie_header_Cons)
    then show ?thesis
      using True e split_on_single [OF semi] entry_set [OF wf Cons.prems(3)] by simp
  next
    case False
    have "pre @ cookie_header (e # m) =
        (pre @ k @ CHR ''='' # v) @ CHR '';'' # ('' '' @ cookie_header m)"
      using False e by (simp add: cookie_header_Cons)
    then have "split_on CHR '';'' (pre @ cookie_header (e # m)) =
        (pre @ k @ CHR ''='' # v) # split_on CHR '';'' ('' '' @ cookie_header m)"
      using split_on_append [OF semi] by simp
    moreover have "fold set_cookie_pair (split_on CHR '';'' ('' '' @ cookie_header m))
        (AList.update k v acc) = fold (\<lambda>(k, v). AList.update k v) m (AList.update k v acc)"
      using Cons.prems(1) False by (intro Cons.IH) simp_all
    ultimately show ?thesis
      using e entry_set [OF wf Cons.prems(3)] by simp
  qed
qed

lemma update_fresh: "k \<notin> fst ` set acc \<Longrightarrow> AList.update k v acc = acc @ [(k, v)]"
  by (induction acc) auto

lemma fold_update_distinct:
  "distinct (map fst (acc @ m)) \<Longrightarrow> fold (\<lambda>(k, v). AList.update k v) m acc = acc @ m"
proof (induction m arbitrary: acc)
  case Nil
  show ?case by simp
next
  case (Cons e m)
  obtain k v where e: "e = (k, v)" by (cases e)
  from Cons.prems e have fresh: "k \<notin> fst ` set acc" by auto
  from Cons.prems e have "distinct (map fst ((acc @ [(k, v)]) @ m))" by simp
  from Cons.IH [OF this] show ?case
    using e by (simp add: update_fresh [OF fresh])
qed

lemma header_roundtrip:
  assumes "\<forall>p \<in> set m. wf_cookie p" "distinct (map fst m)"
  shows "existing_cookies (cookie_header m) = m"
proof (cases "m = []")
  case True
  then show ?thesis by (simp add: existing_cookies_def cookie_header_def)
next
  case False
  then obtain k v m' where m: "m = (k, v) # m'" by (cases m) auto
  then have ne: "cookie_header m \<noteq> []" by (simp add: cookie_header_Cons)
  have "fold set_cookie_pair (split_on CHR '';'' ([] @ cookie_header m)) [] =
      fold (\<lambda>(k, v). AList.update k v) m []"
    using assms(1) False by (intro fold_header_pieces) simp_all
  also have "\<dots> = m" using fold_update_distinct [of "[]" m] assms(2) by simp
  finally show ?thesis using ne by (simp add: existing_cookies_def)
qed

lemma set_cookie_pair_wf:
  assumes "\<forall>p \<in> set acc. wf_cookie p" "CHR '';'' \<notin> set kv"
  shows "\<forall>p \<in> set (set_cookie_pair kv acc). wf_cookie p"
proof (cases "cookie_kv kv")
  case (Pair k v)
  show ?thesis
  proof (cases "k = []")
    case True
    with Pair assms(1) show ?thesis by (simp add: set_cookie_pair_def)
  next
    case False
    from cookie_kv_wf [OF assms(2) Pair False] assms(1) Pair False show ?thesis
      by (auto simp: set_cookie_pair_def dest!: set_update_cases)
  qed
qed

lemma set_cookie_pair_distinct:
  "distinct (map fst acc) \<Longrightarrow> distinct (map fst (set_cookie_pair kv acc))"
  by (simp add: set_cookie_pair_def AList.distinct_update split: prod.splits)

lemma fold_set_cookie_inv:
  assumes "\<forall>p \<in> set acc. wf_cookie p" "distinct (map fst acc)" "\<forall>kv \<in> set kvs. CHR '';'' \<notin> set kv"
  shows "(\<forall>p \<in> set (fold set_cookie_pair kvs acc). wf_cookie p) \<and>
         distinct (map fst (fold set_cookie_pair kvs acc))"
  using assms
proof (induction kvs arbitrary: acc)
  case Nil
  then show ?case by simp
next
  case (Cons kv kvs)
  have "\<forall>p \<in> set (set_cookie_pair kv acc). wf_cookie p"
    using Cons.prems(1,3) by (intro set_cookie_pair_wf) simp_all
  moreover have "distinct (map fst (set_cookie_pair kv acc))"
    using Cons.prems(2) by (rule set_cookie_pair_distinct)
  ultimately show ?case using Cons.IH Cons.prems(3) by simp
qed

lemma merged_cookies_fold:
  "merged_cookies h a =
     fold set_cookie_pair (map (\<lambda>c. hd (split_on CHR '';'' c)) (header_entries a)) (existing_cookies h)"
  by (simp add: merged_cookies_def fold_map comp_def)

lemma existing_cookies_inv:
  "(\<forall>p \<in> set (existing_cookies h). wf_cookie p) \<and> distinct (map fst (existing_cookies h))"
proof (cases "h = []")
  case True
  then show ?thesis by (simp add: existing_cookies_def)
next
  case False
  have "\<forall>kv \<in> set (split_on CHR '';'' h). CHR '';'' \<notin> set kv"
    by (auto dest: split_on_pieces)
  then show ?thesis
    using False fold_set_cookie_inv [of "[]" "split_on CHR '';'' h"]
    by (simp add: existing_cookies_def)
qed

lemma merged_cookies_inv:
  "(\<forall>p \<in> set (merged_cookies h a). wf_cookie p) \<and> distinct (map fst (merged_cookies h a))"
proof -
  have "\<forall>kv \<in> set (map (\<lambda>c. hd (split_on CHR '';'' c)) (header_entries a)). CHR '';'' \<notin> set kv"
    by (auto simp: split_on_hd dest: set_takeWhileD)
  then show ?thesis
    unfolding merged_cookies_fold
    using existing_cookies_inv [of h] by (intro fold_set_cookie_inv) simp_all
qed

lemma fold_set_cookie_pairs:
  "fold set_cookie_pair (map (\<lambda>c. hd (split_on CHR '';'' c)) cs) acc =
     fold (\<lambda>(k, v). AList.update k v) (cookie_pairs cs) acc"
  by (induction cs arbitrary: acc)
     (auto simp: cookie_pairs_def set_cookie_pair_def split: prod.splits)

lemma map_of_fold_update:
  "map_of (fold (\<lambda>(k, v). AList.update k v) ps acc) = map_of acc ++ map_of (rev ps)"
proof (induction ps arbitrary: acc)
  case Nil
  show ?case by simp
next
  case (Cons p ps)
  obtain k v where p: "p = (k, v)" by (cases p)
  have "map_of (AList.update k v acc) ++ map_of (rev ps) =
        map_of acc ++ ([k \<mapsto> v] ++ map_of (rev ps))"
    by (rule ext) (auto simp: AList.update_conv' map_add_def split: option.splits)
  then show ?case using p Cons.IH [of "AList.update k v acc"] by simp
qed

lemma cookie_pairs_append: "cookie_pairs (cs @ ds) = cookie_pairs cs @ cookie_pairs ds"
  by (simp add: cookie_pairs_def)

lemma merged_cookies_pairs:
  "merged_cookies h a =
     fold (\<lambda>(k, v). AList.update k v) (cookie_pairs (header_entries a)) (existing_cookies h)"
  by (simp add: merged_cookies_fold fold_set_cookie_pairs)

lemma last_pair_wins:
  assumes "ps = ps1 @ (k, v) # ps2" "k \<notin> fst ` set ps2"
  shows "map_of (rev ps) k = Some v"
proof -
  from assms(2) have "map_of (rev ps2) k = None"
    by (simp add: map_of_eq_None_iff)
  then show ?thesis unfolding assms(1) by (simp add: map_add_def)
qed

text \<open>
  Claim C8. When both bootstrap requests get a response, whatever the two status codes,
  the primer returns a session. The session is the header made of the cookies set by
  the \<^verbatim>\<open>set-cookie\<close> entries of the first response followed by those of the
  second; read back by name, each name has the value of the last entry that sets it.
\<close>

theorem prime_cookies_accumulates:
  assumes home: "get_home = Response homeStatus homeSetCookie homeBody"
      and listing: "get_now (mergeSetCookies [] homeSetCookie) = Response nowStatus nowSetCookie nowBody"
  shows "\<exists>session.
     primeCookies get_home get_now = Inr session \<and>
     session = cookie_header (fold (\<lambda>(k, v). AList.update k v)
        (cookie_pairs (header_entries homeSetCookie @ header_entries nowSetCookie)) []) \<and>
     existing_cookies session = fold (\<lambda>(k, v). AList.update k v)
        (cookie_pairs (header_entries homeSetCookie @ header_entries nowSetCookie)) [] \<and>
     map_of (existing_cookies session) =
        map_of (rev (cookie_pairs (header_entries homeSetCookie @ header_entries nowSetCookie))) \<and>
     (\<forall>ps1 k v ps2.
        cookie_pairs (header_entries homeSetCookie @ header_entries nowSetCookie) = ps1 @ (k, v) # ps2 \<and>
        k \<notin> fst ` set ps2 \<longrightarrow> map_of (existing_cookies session) k = Some v)"
proof -
  let ?upd = "\<lambda>(k, v). AList.update k v"
  let ?p1 = "cookie_pairs (header_entries homeSetCookie)"
  let ?p2 = "cookie_pairs (header_entries nowSetCookie)"
  let ?M1 = "merged_cookies [] homeSetCookie"
  let ?M = "merged_cookies (cookie_header ?M1) nowSetCookie"
  have m1: "?M1 = fold ?upd ?p1 []"
    by (simp add: merged_cookies_pairs existing_cookies_def)
  have reread1: "existing_cookies (cookie_header ?M1) = ?M1"
    using merged_cookies_inv [of "[]" homeSetCookie] by (intro header_roundtrip) simp_all
  have "?M = fold ?upd ?p2 (existing_cookies (cookie_header ?M1))"
    by (rule merged_cookies_pairs)
  also have "\<dots> = fold ?upd ?p2 ?M1" by (simp only: reread1)
  also have "\<dots> = fold ?upd ?p2 (fold ?upd ?p1 [])" by (simp only: m1)
  also have "\<dots> = fold ?upd (?p1 @ ?p2) []" by simp
  finally have m: "?M = fold ?upd (?p1 @ ?p2) []" .
  have reread: "existing_cookies (cookie_header ?M) = ?M"
    using merged_cookies_inv [of "cookie_header ?M1" nowSetCookie]
    by (intro header_roundtrip) simp_all
  have run: "primeCookies get_home get_now = Inr (cookie_header ?M)"
    using home listing by (simp add: primeCookies_def mergeSetCookies_def)
  have lookup: "map_of ?M = map_of (rev (?p1 @ ?p2))"
    unfolding m by (simp add: map_of_fold_update)
  have wins: "map_of ?M k = Some v"
    if "?p1 @ ?p2 = ps1 @ (k, v) # ps2 \<and> k \<notin> fst ` set ps2" for ps1 k v ps2
    unfolding lookup using that by (intro last_pair_wins [of _ ps1 k v ps2]) simp_all
  show ?thesis
  proof (intro exI [of _ "cookie_header ?M"] conjI allI impI)
    show "primeCookies get_home get_now = Inr (cookie_header ?M)" by (rule run)
    show "cookie_header ?M = cookie_header (fold ?upd
        (cookie_pairs (header_entries homeSetCookie @ header_entries nowSetCookie)) [])"
      by (simp add: m cookie_pairs_append)
    show "existing_cookies (cookie_header ?M) = fold ?upd
        (cookie_pairs (header_entries homeSetCookie @ header_entries nowSetCookie)) []"
      unfolding reread by (simp add: m cookie_pairs_append)
    show "map_of (existing_cookies (cookie_header ?M)) =
        map_of (rev (cookie_pairs (header_entries homeSetCookie @ header_entries nowSetCookie)))"
      unfolding reread by (simp add: lookup cookie_pairs_append)
    show "map_of (existing_cookies (cookie_header ?M)) k = Some v"
      if "cookie_pairs (header_entries homeSetCookie @ header_entries nowSetCookie) = ps1 @ (k, v) # ps2 \<and>
        k \<notin> fst ` set ps2" for ps1 k v ps2
      unfolding reread using that by (intro wins [of ps1 k v ps2]) (simp add: cookie_pairs_append)
  qed
qed

lemmas cookie_defs = primeCookies_def mergeSetCookies_def merged_cookies_def existing_cookies_def
  set_cookie_pair_def cookie_kv_def header_entries_def cookie_header_def cookie_pairs_def
  js_trim_def is_space_def split_on.simps

theorem prime_cookies_accumulates_witness:
  "example_home = Response 503 (Some [''sid=abc; Path=/'', ''waf=1; HttpOnly'']) ''<html>'' \<and>
   example_now_showing (mergeSetCookies [] (Some [''sid=abc; Path=/'', ''waf=1; HttpOnly''])) =
     Response 404 (Some [''sid=xyz; Path=/'']) ''<html>'' \<and>
   primeCookies example_home example_now_showing = Inr ''sid=xyz; waf=1'' \<and>
   cookie_pairs (header_entries (Some [''sid=abc; Path=/'', ''waf=1; HttpOnly'']) @
                 header_entries (Some [''sid=xyz; Path=/''])) =
     [(''sid'', ''abc''), (''waf'', ''1'')] @ (''sid'', ''xyz'') # [] \<and>
   ''sid'' \<notin> fst ` set ([] :: (string \<times> string) list) \<and>
   map_of (existing_cookies ''sid=xyz; waf=1'') ''sid'' = Some ''xyz''"
proof -
  let ?h1 = "Some [''sid=abc; Path=/'', ''waf=1; HttpOnly'']"
  let ?h2 = "Some [''sid=xyz; Path=/'']"
  have home: "example_home = Response 503 ?h1 ''<html>''"
    by (simp add: example_home_def)
  have listing: "example_now_showing (mergeSetCookies [] ?h1) = Response 404 ?h2 ''<html>''"
    by (simp add: example_now_showing_def)
  have run: "primeCookies example_home example_now_showing = Inr ''sid=xyz; waf=1''"
    by (simp add: cookie_defs example_home_def example_now_showing_def)
  have pairs: "cookie_pairs (header_entries ?h1 @ header_entries ?h2) =
     [(''sid'', ''abc''), (''waf'', ''1'')] @ (''sid'', ''xyz'') # []"
    by (simp add: cookie_defs)
  have fresh: "''sid'' \<notin> fst ` set ([] :: (string \<times> string) list)" by simp
  from prime_cookies_accumulates
    [of example_home 503 ?h1 "''<html>''" example_now_showing 404 ?h2 "''<html>''", OF home listing]
  obtain session where
    s: "primeCookies example_home example_now_showing = Inr session"
    and w: "\<forall>ps1 k v ps2.
        cookie_pairs (header_entries ?h1 @ header_entries ?h2) = ps1 @ (k, v) # ps2 \<and>
        k \<notin> fst ` set ps2 \<longrightarrow> map_of (existing_cookies session) k = Some v"
    by blast
  from s run have "session = ''sid=xyz; waf=1''" by simp
  with w pairs fresh have "map_of (existing_cookies ''sid=xyz; waf=1'') ''sid'' = Some ''xyz''"
    by blast
  with home listing run pairs fresh show ?thesis by (intro conjI)
qed

subsection \<open>The window fetcher\<close>

lemma collect_showings_append:
  "collect_showings (xs @ ys) m = collect_showings ys (collect_showings xs m)"
  by (induction xs arbitrary: m) (simp_all add: Let_def)

lemma addDays_step: "addDays (addDays start (int i)) 1 = addDays start (int (Suc i))"
  by (simp add: addDays_def algebra_simps)

lemma addDays_zero: "addDays start 0 = start"
  by (simp add: addDays_def)

lemma rolling_loop_all_ok:
  assumes "\<And>k. i \<le> k \<Longrightarrow> k \<le> DAYS_AHEAD \<Longrightarrow> \<exists>s. day_result post tz start c k = Inr s"
      and "i \<le> Suc DAYS_AHEAD"
      and "cursor = addDays start (int i)"
  shows "rolling_loop post tz c i cursor m q =
     (Inr (collect_showings (concat (map (day_showings post tz start c) [i..<Suc DAYS_AHEAD])) m),
      q @ map (date_of_step tz start) [i..<Suc DAYS_AHEAD])"
  using assms
proof (induction post tz c i cursor m q rule: rolling_loop.induct)
  case (1 post tz c i cursor m q)
  show ?case
  proof (cases "i \<le> DAYS_AHEAD")
    case False
    with "1.prems"(2) have "i = Suc DAYS_AHEAD" by simp
    then show ?thesis by (simp add: rolling_loop.simps)
  next
    case True
    have ymd: "toYMD tz cursor = date_of_step tz start i"
      using "1.prems"(3) by (simp add: date_of_step_def)
    from "1.prems"(1) [OF le_refl True] obtain s where s: "day_result post tz start c i = Inr s"
      by auto
    then have f: "fetchShowingsForDate (post i) c (toYMD tz cursor) = Inr s"
      by (simp add: day_result_def ymd)
    have next_cursor: "addDays cursor 1 = addDays start (int (Suc i))"
      using "1.prems"(3) by (simp add: addDays_step)
    have ih: "rolling_loop post tz c (Suc i) (addDays cursor 1) (collect_showings s m)
         (q @ [toYMD tz cursor]) =
       (Inr (collect_showings (concat (map (day_showings post tz start c) [Suc i..<Suc DAYS_AHEAD]))
          (collect_showings s m)),
        (q @ [toYMD tz cursor]) @ map (date_of_step tz start) [Suc i..<Suc DAYS_AHEAD])"
      using True "1.prems"(1) next_cursor by (intro "1.IH" [OF True refl f]) auto
    have upt: "[i..<Suc DAYS_AHEAD] = i # [Suc i..<Suc DAYS_AHEAD]"
      using True by (simp add: upt_conv_Cons)
    have "concat (map (day_showings post tz start c) [i..<Suc DAYS_AHEAD]) =
       s @ concat (map (day_showings post tz start c) [Suc i..<Suc DAYS_AHEAD])"
      using s by (subst upt) (simp add: day_showings_def)
    moreover have "map (date_of_step tz start) [i..<Suc DAYS_AHEAD] =
       toYMD tz cursor # map (date_of_step tz start) [Suc i..<Suc DAYS_AHEAD]"
      by (subst upt) (simp add: ymd)
    ultimately show ?thesis
      using ih f True by (subst rolling_loop.simps) (simp add: collect_showings_append)
  qed
qed

lemma rolling_loop_first_failure:
  assumes "i \<le> j" "j \<le> DAYS_AHEAD" "day_result post tz start c j = Inl e"
      and "\<And>k. i \<le> k \<Longrightarrow> k < j \<Longrightarrow> \<exists>s. day_result post tz start c k = Inr s"
      and "cursor = addDays start (int i)"
  shows "rolling_loop post tz c i cursor m q = (Inl e, q @ map (date_of_step tz start) [i..<Suc j])"
  using assms
proof (induction post tz c i cursor m q rule: rolling_loop.induct)
  case (1 post tz c i cursor m q)
  from "1.prems"(1,2) have le: "i \<le> DAYS_AHEAD" by simp
  have ymd: "toYMD tz cursor = date_of_step tz start i"
    using "1.prems"(5) by (simp add: date_of_step_def)
  show ?case
  proof (cases "i = j")
    case True
    with "1.prems"(3) have "fetchShowingsForDate (post i) c (toYMD tz cursor) = Inl e"
      by (simp add: day_result_def ymd)
    with le True ymd show ?thesis by (subst rolling_loop.simps) simp
  next
    case False
    with "1.prems"(1) have lt: "i < j" by simp
    from "1.prems"(4) [OF le_refl lt] obtain s where "day_result post tz start c i = Inr s"
      by auto
    then have f: "fetchShowingsForDate (post i) c (toYMD tz cursor) = Inr s"
      by (simp add: day_result_def ymd)
    have next_cursor: "addDays cursor 1 = addDays start (int (Suc i))"
      using "1.prems"(5) by (simp add: addDays_step)
    have ih: "rolling_loop post tz c (Suc i) (addDays cursor 1) (collect_showings s m)
         (q @ [toYMD tz cursor]) =
       (Inl e, (q @ [toYMD tz cursor]) @ map (date_of_step tz start) [Suc i..<Suc j])"
      using lt "1.prems" next_cursor by (intro "1.IH" [OF le refl f]) auto
    have "[i..<Suc j] = i # [Suc i..<Suc j]"
      using lt by (simp add: upt_conv_Cons)
    then have "map (date_of_step tz start) [i..<Suc j] =
       toYMD tz cursor # map (date_of_step tz start) [Suc i..<Suc j]"
      by (simp add: ymd)
    with ih f le show ?thesis by (subst rolling_loop.simps) simp
  qed
qed

lemma first_failing_day:
  assumes "j \<le> n" "day_result post tz start c j = Inl e"
  shows "\<exists>k e'. k \<le> j \<and> day_result post tz start c k = Inl e' \<and>
           (\<forall>i<k. \<exists>s. day_result post tz start c i = Inr s)"
proof -
  let ?P = "\<lambda>k. \<exists>e'. day_result post tz start c k = Inl e'"
  have "?P j" using assms(2) by blast
  then have least: "?P (LEAST k. ?P k)" "(LEAST k. ?P k) \<le> j"
    by (rule LeastI, rule Least_le)
  have "\<exists>s. day_result post tz start c i = Inr s" if "i < (LEAST k. ?P k)" for i
  proof -
    from that have "\<not> ?P i" by (rule not_less_Least)
    then show ?thesis by (cases "day_result post tz start c i") auto
  qed
  with least show ?thesis by blast
qed

lemma fetch_forbidden:
  "post c ymd = Response 403 sc body \<Longrightarrow> fetchShowingsForDate post c ymd = Inl (Forbidden ymd)"
  by (simp add: fetchShowingsForDate_def)

lemma fetch_http_status:
  "post c ymd = Response st sc body \<Longrightarrow> st \<noteq> 403 \<Longrightarrow> st < 200 \<or> 300 \<le> st \<Longrightarrow>
   fetchShowingsForDate post c ymd = Inl (Http_Status st ymd)"
  by (auto simp: fetchShowingsForDate_def)

lemma fetch_graphql_error:
  "post c ymd = Response st sc body \<Longrightarrow> 200 \<le> st \<Longrightarrow> st < 300 \<Longrightarrow>
   error_message body = Some msg \<Longrightarrow> msg \<noteq> [] \<Longrightarrow>
   fetchShowingsForDate post c ymd = Inl (Graphql_Error ymd msg)"
  by (auto simp: fetchShowingsForDate_def)

lemma fetch_graphql_errors:
  "post c ymd = Response st sc body \<Longrightarrow> 200 \<le> st \<Longrightarrow> st < 300 \<Longrightarrow>
   error_message body = None \<or> error_message body = Some [] \<Longrightarrow> gql_errors body \<noteq> [] \<Longrightarrow>
   fetchShowingsForDate post c ymd = Inl (Graphql_Errors ymd (gql_errors body))"
  by (auto simp: fetchShowingsForDate_def)

lemma fetch_no_response:
  "post c ymd = No_Response \<Longrightarrow> fetchShowingsForDate post c ymd = Inl Transport_Error"
  by (simp add: fetchShowingsForDate_def)

lemma getAll_primed:
  "primeCookies get_home get_now = Inr c \<Longrightarrow>
   getAllShowtimesRollingMonth getTime get_home get_now post tz start =
     (case rolling_loop post tz c 0 start [] [] of
        (Inl e, queried) \<Rightarrow> (Inl e, queried)
      | (Inr showtimeMap, queried) \<Rightarrow> (Inr (dedupe_sort_all getTime showtimeMap), queried))"
  by (simp add: getAllShowtimesRollingMonth_def)

text \<open>
  The fetch is all or nothing. Once the session is primed, the fetch returns a schedule
  only if each of the 31 queries (the steps \<open>0\<close> to \<open>DAYS_AHEAD\<close> of the loop)
  succeeded, and then it is the normalized concatenation of the records of all the
  queries. If a query fails, the fetch fails with the error of the first failing step
  \<open>k\<close>, and the dates queried are those of the steps \<open>0\<close> to \<open>k\<close>: no later
  date is queried. A forbidden status, another status outside 2xx and the two kinds of
  error payload give errors of different kinds, each with the date of its query.
\<close>

theorem rolling_fetch_all_or_nothing:
  assumes prime: "primeCookies get_home get_now = Inr c"
  shows
    "((\<forall>i\<le>DAYS_AHEAD. \<exists>s. day_result post tz start c i = Inr s) \<longrightarrow>
        getAllShowtimesRollingMonth getTime get_home get_now post tz start =
          (Inr (dedupe_sort_all getTime
             (collect_showings (concat (map (day_showings post tz start c) [0..<Suc DAYS_AHEAD])) [])),
           map (date_of_step tz start) [0..<Suc DAYS_AHEAD])) \<and>
     (\<forall>j e. j \<le> DAYS_AHEAD \<and> day_result post tz start c j = Inl e \<longrightarrow>
        (\<exists>k e'. k \<le> j \<and> day_result post tz start c k = Inl e' \<and>
           getAllShowtimesRollingMonth getTime get_home get_now post tz start =
             (Inl e', map (date_of_step tz start) [0..<Suc k]))) \<and>
     (\<forall>m q. getAllShowtimesRollingMonth getTime get_home get_now post tz start = (Inr m, q) \<longrightarrow>
        (\<forall>i\<le>DAYS_AHEAD. \<exists>s. day_result post tz start c i = Inr s)) \<and>
     Suc DAYS_AHEAD = 31 \<and>
     (\<forall>i st sc body. post i c (date_of_step tz start i) = Response st sc body \<and> st = 403 \<longrightarrow>
        day_result post tz start c i = Inl (Forbidden (date_of_step tz start i))) \<and>
     (\<forall>i st sc body. post i c (date_of_step tz start i) = Response st sc body \<and> st \<noteq> 403 \<and>
        (st < 200 \<or> 300 \<le> st) \<longrightarrow>
        day_result post tz start c i = Inl (Http_Status st (date_of_step tz start i))) \<and>
     (\<forall>i st sc body msg. post i c (date_of_step tz start i) = Response st sc body \<and>
        200 \<le> st \<and> st < 300 \<and> error_message body = Some msg \<and> msg \<noteq> [] \<longrightarrow>
        day_result post tz start c i = Inl (Graphql_Error (date_of_step tz start i) msg)) \<and>
     (\<forall>i st sc body. post i c (date_of_step tz start i) = Response st sc body \<and>
        200 \<le> st \<and> st < 300 \<and>
        (error_message body = None \<or> error_message body = Some []) \<and> gql_errors body \<noteq> [] \<longrightarrow>
        day_result post tz start c i =
          Inl (Graphql_Errors (date_of_step tz start i) (gql_errors body)))"
proof -
  let ?run = "getAllShowtimesRollingMonth getTime get_home get_now post tz start"
  have ok: "?run =
      (Inr (dedupe_sort_all getTime
         (collect_showings (concat (map (day_showings post tz start c) [0..<Suc DAYS_AHEAD])) [])),
       map (date_of_step tz start) [0..<Suc DAYS_AHEAD])"
    if "\<forall>i\<le>DAYS_AHEAD. \<exists>s. day_result post tz start c i = Inr s"
  proof -
    have "rolling_loop post tz c 0 start [] [] =
      (Inr (collect_showings (concat (map (day_showings post tz start c) [0..<Suc DAYS_AHEAD])) []),
       [] @ map (date_of_step tz start) [0..<Suc DAYS_AHEAD])"
      using that by (intro rolling_loop_all_ok) (auto simp: addDays_zero)
    then show ?thesis by (simp add: getAll_primed [OF prime])
  qed
  have fail: "\<exists>k e'. k \<le> j \<and> day_result post tz start c k = Inl e' \<and>
      ?run = (Inl e', map (date_of_step tz start) [0..<Suc k])"
    if "j \<le> DAYS_AHEAD" "day_result post tz start c j = Inl e" for j e
  proof -
    from first_failing_day [OF that] obtain k e' where
      k: "k \<le> j" "day_result post tz start c k = Inl e'"
         "\<forall>i<k. \<exists>s. day_result post tz start c i = Inr s"
      by blast
    from k(1) that(1) have "k \<le> DAYS_AHEAD" by simp
    with k have "rolling_loop post tz c 0 start [] [] =
        (Inl e', [] @ map (date_of_step tz start) [0..<Suc k])"
      by (intro rolling_loop_first_failure) (auto simp: addDays_zero)
    then have "?run = (Inl e', map (date_of_step tz start) [0..<Suc k])"
      by (simp add: getAll_primed [OF prime])
    with k show ?thesis by blast
  qed
  have only: "\<exists>s. day_result post tz start c i = Inr s"
    if "?run = (Inr m, q)" "i \<le> DAYS_AHEAD" for m q i
  proof (cases "day_result post tz start c i")
    case (Inl e)
    from fail [OF that(2) Inl] that(1) show ?thesis by auto
  next
    case (Inr s)
    then show ?thesis by blast
  qed
  have days: "Suc DAYS_AHEAD = 31" by (simp add: DAYS_AHEAD_def)
  from ok fail only days show ?thesis
    unfolding day_result_def
    by (intro conjI allI impI)
       (blast, blast, blast, assumption,
        auto intro: fetch_forbidden fetch_http_status fetch_graphql_error fetch_graphql_errors)
qed

lemma example_primed:
  "primeCookies example_home example_now_showing = Inr ''sid=xyz; waf=1''"
  by (simp add: primeCookies_def example_home_def example_now_showing_def mergeSetCookies_def
      merged_cookies_def existing_cookies_def set_cookie_pair_def cookie_kv_def header_entries_def
      cookie_header_def js_trim_def is_space_def split_on.simps)

lemma window_steps:
  "[0..<Suc DAYS_AHEAD] =
     [0, 1, 2, 3, 4, 5, 6, 7, 8, 9, 10, 11, 12, 13, 14, 15, 16, 17, 18, 19, 20, 21, 22, 23, 24, 25,
      26, 27, 28, 29, 30]"
  by (simp add: DAYS_AHEAD_def upt_conv_Cons)

lemmas date_unfold = date_of_step_def toYMD_def addDays_def calendar_date_def Let_def

lemmas date_eval = melbourne_offset_def year_of_era_def day_of_year_def month_and_day_def
  two_digits_def

lemma first_steps: "[0..<5] = [0, 1, 2, 3, 4]"
  by (simp add: upt_conv_Cons)

lemma example_dates:
  "map (date_of_step melbourne_offset example_now) [0..<5] =
     [''2025-01-09'', ''2025-01-10'', ''2025-01-11'', ''2025-01-12'', ''2025-01-13'']"
  by (simp only: first_steps list.map date_unfold example_now_def) (simp add: date_eval)

lemma example_date_0: "date_of_step melbourne_offset example_now 0 = ''2025-01-09''"
  by (simp only: date_unfold example_now_def) (simp add: date_eval)

lemma example_date_4: "date_of_step melbourne_offset example_now 4 = ''2025-01-13''"
  by (simp only: date_unfold example_now_def) (simp add: date_eval)

theorem rolling_fetch_all_or_nothing_witness:
  "primeCookies example_home example_now_showing = Inr ''sid=xyz; waf=1'' \<and>
   (\<forall>i. \<exists>s. day_result post_ok melbourne_offset example_now ''sid=xyz; waf=1'' i = Inr s) \<and>
   getAllShowtimesRollingMonth example_getTime example_home example_now_showing post_ok
       melbourne_offset example_now =
     (Inr (dedupe_sort_all example_getTime
        (collect_showings
           (concat (map (day_showings post_ok melbourne_offset example_now ''sid=xyz; waf=1'')
              [0..<Suc DAYS_AHEAD])) [])),
      map (date_of_step melbourne_offset example_now) [0..<Suc DAYS_AHEAD]) \<and>
   (4::nat) \<le> DAYS_AHEAD \<and>
   post_forbidden_day5 4 ''sid=xyz; waf=1'' ''2025-01-13'' = Response 403 None (example_body []) \<and>
   day_result post_forbidden_day5 melbourne_offset example_now ''sid=xyz; waf=1'' 4 =
     Inl (Forbidden ''2025-01-13'') \<and>
   getAllShowtimesRollingMonth example_getTime example_home example_now_showing
       post_forbidden_day5 melbourne_offset example_now =
     (Inl (Forbidden ''2025-01-13''),
      [''2025-01-09'', ''2025-01-10'', ''2025-01-11'', ''2025-01-12'', ''2025-01-13''])"
proof -
  let ?c = "''sid=xyz; waf=1''"
  let ?tz = melbourne_offset
  let ?t = example_now
  note inst_ok = rolling_fetch_all_or_nothing
    [of example_home example_now_showing ?c post_ok ?tz ?t example_getTime, OF example_primed]
  note inst_bad = rolling_fetch_all_or_nothing
    [of example_home example_now_showing ?c post_forbidden_day5 ?tz ?t example_getTime,
     OF example_primed]
  have all_ok: "\<forall>i. \<exists>s. day_result post_ok ?tz ?t ?c i = Inr s"
    by (simp add: day_result_def fetchShowingsForDate_def post_ok_def example_body_def)
  then have "\<forall>i\<le>DAYS_AHEAD. \<exists>s. day_result post_ok ?tz ?t ?c i = Inr s"
    by blast
  with inst_ok [THEN conjunct1] have run_ok:
    "getAllShowtimesRollingMonth example_getTime example_home example_now_showing post_ok ?tz ?t =
     (Inr (dedupe_sort_all example_getTime
        (collect_showings
           (concat (map (day_showings post_ok ?tz ?t ?c) [0..<Suc DAYS_AHEAD])) [])),
      map (date_of_step ?tz ?t) [0..<Suc DAYS_AHEAD])"
    by blast
  have d4: "(4::nat) \<le> DAYS_AHEAD" by (simp add: DAYS_AHEAD_def)
  have date4: "date_of_step ?tz ?t 4 = ''2025-01-13''"
    by (rule example_date_4)
  have r4: "post_forbidden_day5 4 ?c (date_of_step ?tz ?t 4) = Response 403 None (example_body [])"
    by (simp add: post_forbidden_day5_def)
  from inst_bad [THEN conjunct2, THEN conjunct2, THEN conjunct2, THEN conjunct2, THEN conjunct1] r4
  have f4: "day_result post_forbidden_day5 ?tz ?t ?c 4 = Inl (Forbidden (date_of_step ?tz ?t 4))"
    by blast
  from inst_bad [THEN conjunct2, THEN conjunct1] d4 f4 obtain k e' where k: "k \<le> 4"
    "day_result post_forbidden_day5 ?tz ?t ?c k = Inl e'"
    "getAllShowtimesRollingMonth example_getTime example_home example_now_showing
       post_forbidden_day5 ?tz ?t = (Inl e', map (date_of_step ?tz ?t) [0..<Suc k])"
    by blast
  have "k = 4"
  proof (rule ccontr)
    assume "k \<noteq> 4"
    with k(1) have "k < 4" by simp
    then have "day_result post_forbidden_day5 ?tz ?t ?c k = Inr [example_showing]"
      by (simp add: day_result_def fetchShowingsForDate_def post_forbidden_day5_def post_ok_def
          example_body_def)
    with k(2) show False by simp
  qed
  with k f4 have run_bad:
    "getAllShowtimesRollingMonth example_getTime example_home example_now_showing
       post_forbidden_day5 ?tz ?t =
     (Inl (Forbidden (date_of_step ?tz ?t 4)), map (date_of_step ?tz ?t) [0..<5])"
    by simp
  show ?thesis
    using example_primed all_ok run_ok d4 r4 [unfolded date4] f4 [unfolded date4]
      run_bad [unfolded date4 example_dates]
    by (intro conjI) assumption+
qed

subsection \<open>The dates of the window\<close>

lemma october_dates:
  "map (date_of_step melbourne_offset eve_of_daylight_time) [0..<Suc DAYS_AHEAD] =
     [''2025-10-04'', ''2025-10-06'', ''2025-10-07'', ''2025-10-08'', ''2025-10-09'',
      ''2025-10-10'', ''2025-10-11'', ''2025-10-12'', ''2025-10-13'', ''2025-10-14'',
      ''2025-10-15'', ''2025-10-16'', ''2025-10-17'', ''2025-10-18'', ''2025-10-19'',
      ''2025-10-20'', ''2025-10-21'', ''2025-10-22'', ''2025-10-23'', ''2025-10-24'',
      ''2025-10-25'', ''2025-10-26'', ''2025-10-27'', ''2025-10-28'', ''2025-10-29'',
      ''2025-10-30'', ''2025-10-31'', ''2025-11-01'', ''2025-11-02'', ''2025-11-03'',
      ''2025-11-04'']"
  by (simp only: window_steps list.map date_unfold eve_of_daylight_time_def) (simp add: date_eval)

lemma april_dates:
  "map (date_of_step melbourne_offset last_night_of_daylight_time) [0..<Suc DAYS_AHEAD] =
     [''2025-04-06'', ''2025-04-06'', ''2025-04-07'', ''2025-04-08'', ''2025-04-09'',
      ''2025-04-10'', ''2025-04-11'', ''2025-04-12'', ''2025-04-13'', ''2025-04-14'',
      ''2025-04-15'', ''2025-04-16'', ''2025-04-17'', ''2025-04-18'', ''2025-04-19'',
      ''2025-04-20'', ''2025-04-21'', ''2025-04-22'', ''2025-04-23'', ''2025-04-24'',
      ''2025-04-25'', ''2025-04-26'', ''2025-04-27'', ''2025-04-28'', ''2025-04-29'',
      ''2025-04-30'', ''2025-05-01'', ''2025-05-02'', ''2025-05-03'', ''2025-05-04'',
      ''2025-05-05'']"
  by (simp only: window_steps list.map date_unfold last_night_of_daylight_time_def)
     (simp add: date_eval)

lemma post_october_result:
  "day_result post_october tz start c i = Inr (october_program (date_of_step tz start i))"
  by (simp add: day_result_def fetchShowingsForDate_def post_october_def example_body_def)

lemma post_october_showings:
  "concat (map (day_showings post_october tz start c) steps) =
   concat (map october_program (map (date_of_step tz start) steps))"
proof -
  have "day_showings post_october tz start c = (\<lambda>i. october_program (date_of_step tz start i))"
    by (simp add: fun_eq_iff day_showings_def post_october_result)
  then show ?thesis by (simp add: comp_def)
qed

lemma post_october_loop:
  "rolling_loop post_october tz c 0 start [] [] =
     (Inr (collect_showings
        (concat (map october_program (map (date_of_step tz start) [0..<Suc DAYS_AHEAD]))) []),
      map (date_of_step tz start) [0..<Suc DAYS_AHEAD])"
proof -
  have "rolling_loop post_october tz c 0 start [] [] =
     (Inr (collect_showings
        (concat (map (day_showings post_october tz start c) [0..<Suc DAYS_AHEAD])) []),
      [] @ map (date_of_step tz start) [0..<Suc DAYS_AHEAD])"
    by (intro rolling_loop_all_ok) (simp_all add: post_october_result addDays_zero)
  then show ?thesis by (simp only: post_october_showings append_Nil)
qed

text \<open>
  Claim C6 fails on the dates of the window. The cursor moves by 24 hours of UTC, while
  \<^verbatim>\<open>toYMD\<close> reads the date on the clocks of Melbourne: a run that begins in the
  last hour of a day, within 30 days before the clocks go forward, passes over a
  calendar date. In the run that begins at 11:30 pm on 4 October 2025 every query
  succeeds and the fetch returns a schedule after 31 queries, none of which asks for
  5 October: the session the endpoint lists for that date is not in the schedule, and
  the last date queried is 4 November, today + 31.
\<close>

theorem rolling_window_skips_a_date:
  "getAllShowtimesRollingMonth example_getTime example_home example_now_showing post_october
       melbourne_offset eve_of_daylight_time =
     (Inr [(''Movie A'', [''2025-10-06T08:00:00Z''])],
      [''2025-10-04'', ''2025-10-06'', ''2025-10-07'', ''2025-10-08'', ''2025-10-09'',
      ''2025-10-10'', ''2025-10-11'', ''2025-10-12'', ''2025-10-13'', ''2025-10-14'',
      ''2025-10-15'', ''2025-10-16'', ''2025-10-17'', ''2025-10-18'', ''2025-10-19'',
      ''2025-10-20'', ''2025-10-21'', ''2025-10-22'', ''2025-10-23'', ''2025-10-24'',
      ''2025-10-25'', ''2025-10-26'', ''2025-10-27'', ''2025-10-28'', ''2025-10-29'',
      ''2025-10-30'', ''2025-10-31'', ''2025-11-01'', ''2025-11-02'', ''2025-11-03'',
      ''2025-11-04''])"
proof -
  have records: "concat (map october_program
     [''2025-10-04'', ''2025-10-06'', ''2025-10-07'', ''2025-10-08'', ''2025-10-09'',
      ''2025-10-10'', ''2025-10-11'', ''2025-10-12'', ''2025-10-13'', ''2025-10-14'',
      ''2025-10-15'', ''2025-10-16'', ''2025-10-17'', ''2025-10-18'', ''2025-10-19'',
      ''2025-10-20'', ''2025-10-21'', ''2025-10-22'', ''2025-10-23'', ''2025-10-24'',
      ''2025-10-25'', ''2025-10-26'', ''2025-10-27'', ''2025-10-28'', ''2025-10-29'',
      ''2025-10-30'', ''2025-10-31'', ''2025-11-01'', ''2025-11-02'', ''2025-11-03'',
      ''2025-11-04'']) =
     [monday_showing]"
    by (simp add: october_program_def)
  have schedule: "dedupe_sort_all example_getTime (collect_showings [monday_showing] []) =
     [(''Movie A'', [''2025-10-06T08:00:00Z''])]"
    by (simp add: monday_showing_def js_trim_def is_space_def dedupe_sort_all_def dedupe_def
        sort_by_def)
  show ?thesis
    by (simp only: getAll_primed [OF example_primed] post_october_loop records schedule
        october_dates prod.case sum.case)
qed

text \<open>
  When the clocks go back, a date is asked twice. The run that begins at 0:30 am on
  6 April 2025 sends 31 queries for 30 dates: the first two are for 6 April, and the last
  is for 5 May, today + 29.
\<close>

theorem rolling_window_repeats_a_date:
  "getAllShowtimesRollingMonth example_getTime example_home example_now_showing post_october
       melbourne_offset last_night_of_daylight_time =
     (Inr [],
      [''2025-04-06'', ''2025-04-06'', ''2025-04-07'', ''2025-04-08'', ''2025-04-09'',
      ''2025-04-10'', ''2025-04-11'', ''2025-04-12'', ''2025-04-13'', ''2025-04-14'',
      ''2025-04-15'', ''2025-04-16'', ''2025-04-17'', ''2025-04-18'', ''2025-04-19'',
      ''2025-04-20'', ''2025-04-21'', ''2025-04-22'', ''2025-04-23'', ''2025-04-24'',
      ''2025-04-25'', ''2025-04-26'', ''2025-04-27'', ''2025-04-28'', ''2025-04-29'',
      ''2025-04-30'', ''2025-05-01'', ''2025-05-02'', ''2025-05-03'', ''2025-05-04'',
      ''2025-05-05''])"
proof -
  have records: "concat (map october_program
     [''2025-04-06'', ''2025-04-06'', ''2025-04-07'', ''2025-04-08'', ''2025-04-09'',
      ''2025-04-10'', ''2025-04-11'', ''2025-04-12'', ''2025-04-13'', ''2025-04-14'',
      ''2025-04-15'', ''2025-04-16'', ''2025-04-17'', ''2025-04-18'', ''2025-04-19'',
      ''2025-04-20'', ''2025-04-21'', ''2025-04-22'', ''2025-04-23'', ''2025-04-24'',
      ''2025-04-25'', ''2025-04-26'', ''2025-04-27'', ''2025-04-28'', ''2025-04-29'',
      ''2025-04-30'', ''2025-05-01'', ''2025-05-02'', ''2025-05-03'', ''2025-05-04'',
      ''2025-05-05'']) =
     []"
    by (simp add: october_program_def)
  have schedule: "dedupe_sort_all example_getTime (collect_showings [] []) = []"
    by (simp add: dedupe_sort_all_def)
  show ?thesis
    by (simp only: getAll_primed [OF example_primed] post_october_loop records schedule
        april_dates prod.case sum.case)
qed

subsection \<open>The normalizer\<close>

lemma set_insert_by: "set (insert_by cmp x ys) = insert x (set ys)"
  by (induction ys) auto

lemma distinct_insert_by: "distinct (insert_by cmp x ys) \<longleftrightarrow> x \<notin> set ys \<and> distinct ys"
  by (induction ys) (auto simp: set_insert_by)

lemma set_sort_by: "set (sort_by cmp xs) = set xs"
  by (induction xs) (simp_all add: sort_by_def set_insert_by)

lemma distinct_sort_by: "distinct (sort_by cmp xs) \<longleftrightarrow> distinct xs"
  by (induction xs) (simp_all add: sort_by_def distinct_insert_by set_sort_by [unfolded sort_by_def])

lemma compare_times_parsed:
  "getTime a = Some ta \<Longrightarrow> getTime b = Some tb \<Longrightarrow> compare_times getTime a b = ta - tb"
  by (simp add: compare_times_def)

lemma sorted_insert_by:
  assumes "\<forall>y \<in> set (x # ys). getTime y \<noteq> None"
      and "sorted (map (\<lambda>s. the (getTime s)) ys)"
  shows "sorted (map (\<lambda>s. the (getTime s)) (insert_by (compare_times getTime) x ys))"
  using assms
proof (induction ys)
  case Nil
  show ?case by simp
next
  case (Cons y ys)
  from Cons.prems(1) obtain tx ty where t: "getTime x = Some tx" "getTime y = Some ty" by auto
  show ?case
  proof (cases "compare_times getTime x y \<le> 0")
    case True
    with t have "tx \<le> ty" by (simp add: compare_times_parsed)
    with Cons.prems(2) t True show ?thesis by auto
  next
    case False
    with t have lt: "ty < tx" by (simp add: compare_times_parsed)
    have "sorted (map (\<lambda>s. the (getTime s)) (insert_by (compare_times getTime) x ys))"
      using Cons.prems by (intro Cons.IH) auto
    with Cons.prems(2) lt t False show ?thesis
      by (auto simp: set_insert_by)
  qed
qed

lemma sorted_sort_by:
  "\<forall>y \<in> set xs. getTime y \<noteq> None \<Longrightarrow>
   sorted (map (\<lambda>s. the (getTime s)) (sort_by (compare_times getTime) xs))"
proof (induction xs)
  case Nil
  show ?case by (simp add: sort_by_def)
next
  case (Cons x xs)
  have "sorted (map (\<lambda>s. the (getTime s)) (insert_by (compare_times getTime) x
          (sort_by (compare_times getTime) xs)))"
    using Cons by (intro sorted_insert_by) (auto simp: set_sort_by)
  then show ?case by (simp add: sort_by_def)
qed

lemma dedupe_acc:
  "distinct seen \<Longrightarrow>
   distinct (foldl (\<lambda>seen x. if x \<in> set seen then seen else seen @ [x]) seen xs) \<and>
   set (foldl (\<lambda>seen x. if x \<in> set seen then seen else seen @ [x]) seen xs) = set seen \<union> set xs"
  by (induction xs arbitrary: seen) auto

lemma distinct_dedupe: "distinct (dedupe xs)"
  using dedupe_acc [of "[]" xs] by (simp add: dedupe_def)

lemma set_dedupe: "set (dedupe xs) = set xs"
  using dedupe_acc [of "[]" xs] by (simp add: dedupe_def)

lemma collect_showings_distinct:
  "distinct (map fst m) \<Longrightarrow> distinct (map fst (collect_showings showings m))"
  by (induction showings arbitrary: m)
     (auto simp: Let_def AList.distinct_update split: option.splits)

lemma collect_showings_instants:
  assumes "\<forall>(k, v) \<in> set m. \<forall>x \<in> set v. P x"
      and "\<forall>s \<in> set showings. \<forall>t. time_iso s = Some t \<longrightarrow> P t"
  shows "\<forall>(k, v) \<in> set (collect_showings showings m). \<forall>x \<in> set v. P x"
  using assms
proof (induction showings arbitrary: m)
  case Nil
  then show ?case by simp
next
  case (Cons s showings)
  let ?movie = "case movie_name s of None \<Rightarrow> [] | Some name \<Rightarrow> js_trim name"
  let ?t = "case time_iso s of None \<Rightarrow> [] | Some t \<Rightarrow> t"
  from Cons.prems(2) have rest: "\<forall>s \<in> set showings. \<forall>t. time_iso s = Some t \<longrightarrow> P t" by simp
  show ?case
  proof (cases "?movie = [] \<or> ?t = []")
    case True
    with Cons.IH [OF Cons.prems(1) rest] show ?thesis by (simp add: Let_def)
  next
    case False
    then have "time_iso s = Some ?t" by (cases "time_iso s") auto
    with Cons.prems(2) have pt: "P ?t" by simp
    let ?m' = "case map_of m ?movie of None \<Rightarrow> AList.update ?movie [?t] m
        | Some isos \<Rightarrow> AList.update ?movie (isos @ [?t]) m"
    have "\<forall>(k, v) \<in> set ?m'. \<forall>x \<in> set v. P x"
    proof (cases "map_of m ?movie")
      case None
      with pt Cons.prems(1) show ?thesis by (auto dest!: set_update_cases)
    next
      case (Some isos)
      then have "(?movie, isos) \<in> set m" by (rule map_of_SomeD)
      with Cons.prems(1) have "\<forall>x \<in> set isos. P x" by auto
      with pt Cons.prems(1) Some show ?thesis by (auto dest!: set_update_cases)
    qed
    from Cons.IH [OF this rest] False show ?thesis by (simp add: Let_def)
  qed
qed

lemma update_same_key:
  assumes "distinct (map fst al)" "(k, v) \<in> set (AList.update k w al)"
  shows "v = w"
proof -
  from assms(1) have "distinct (map fst (AList.update k w al))" by (rule AList.distinct_update)
  with assms(2) have "map_of (AList.update k w al) k = Some v" by simp
  then show ?thesis by (simp add: AList.update_conv')
qed

lemma finalize_fold:
  fixes g :: "string list \<Rightarrow> string list"
  assumes "distinct (map fst m)" "\<forall>(k, v) \<in> set m. R v"
      and g: "\<And>v. R v \<Longrightarrow> R (g v) \<and> Q (g v)"
  shows "distinct (map fst (fold (\<lambda>movie m. case map_of m movie of None \<Rightarrow> m
            | Some isos \<Rightarrow> AList.update movie (g isos) m) ks m)) \<and>
         (\<forall>(k, v) \<in> set (fold (\<lambda>movie m. case map_of m movie of None \<Rightarrow> m
            | Some isos \<Rightarrow> AList.update movie (g isos) m) ks m).
            R v \<and> (k \<in> set ks \<longrightarrow> Q v) \<and> k \<in> fst ` set m)"
proof (induction ks rule: rev_induct)
  case Nil
  from assms(1,2) show ?case by force
next
  case (snoc k' ks)
  let ?step = "\<lambda>movie m. case map_of m movie of None \<Rightarrow> m
            | Some isos \<Rightarrow> AList.update movie (g isos) m"
  let ?m' = "fold ?step ks m"
  from snoc have d: "distinct (map fst ?m')"
    and inv: "\<And>k v. (k, v) \<in> set ?m' \<Longrightarrow> R v \<and> (k \<in> set ks \<longrightarrow> Q v) \<and> k \<in> fst ` set m"
    by auto
  have f: "fold ?step (ks @ [k']) m = ?step k' ?m'" by simp
  show ?case
  proof (cases "map_of ?m' k'")
    case None
    then have "k' \<notin> fst ` set ?m'" by (simp add: map_of_eq_None_iff)
    then have "k \<noteq> k'" if "(k, v) \<in> set ?m'" for k v using that by force
    with inv d None show ?thesis unfolding f by auto
  next
    case (Some isos)
    then have mem: "(k', isos) \<in> set ?m'" by (rule map_of_SomeD)
    from inv [OF mem] g have gi: "R (g isos)" "Q (g isos)" "k' \<in> fst ` set m" by auto
    have "R v \<and> (k \<in> set (ks @ [k']) \<longrightarrow> Q v) \<and> k \<in> fst ` set m"
      if kv: "(k, v) \<in> set (AList.update k' (g isos) ?m')" for k v
    proof (cases "k = k'")
      case True
      with kv update_same_key [OF d] have "v = g isos" by blast
      with gi True show ?thesis by simp
    next
      case False
      with set_update_cases [OF kv] have "(k, v) \<in> set ?m'" by auto
      from inv [OF this] False show ?thesis by simp
    qed
    with d Some show ?thesis unfolding f by (auto simp: AList.distinct_update)
  qed
qed

text \<open>
  The rolling-window script: when every instant of the records parses, each title's
  list in the schedule is free of duplicates and in ascending order of time.
\<close>

theorem rolling_normalizer_sorted_distinct:
  assumes parse: "\<forall>s \<in> set showings. \<forall>t. time_iso s = Some t \<longrightarrow> getTime t \<noteq> None"
      and entry: "(movie, isos) \<in> set (dedupe_sort_all getTime (collect_showings showings []))"
  shows "distinct isos \<and> sorted (map (\<lambda>s. the (getTime s)) isos)"
proof -
  let ?m = "collect_showings showings []"
  let ?R = "\<lambda>v. \<forall>x \<in> set v. getTime x \<noteq> None"
  let ?Q = "\<lambda>v. distinct v \<and> sorted (map (\<lambda>s. the (getTime s)) v)"
  let ?g = "\<lambda>isos. sort_by (compare_times getTime) (dedupe isos)"
  have d: "distinct (map fst ?m)" by (rule collect_showings_distinct) simp
  have r: "\<forall>(k, v) \<in> set ?m. ?R v"
    using parse by (intro collect_showings_instants) simp_all
  have g: "?R (?g v) \<and> ?Q (?g v)" if "?R v" for v
    using that
    by (auto simp: set_sort_by set_dedupe distinct_sort_by distinct_dedupe intro!: sorted_sort_by)
  from finalize_fold [of ?m ?R ?g ?Q "map fst ?m", OF d r g] entry
  have "?R isos \<and> (movie \<in> set (map fst ?m) \<longrightarrow> ?Q isos) \<and> movie \<in> fst ` set ?m"
    unfolding dedupe_sort_all_def by fast
  then show ?thesis by simp
qed

theorem rolling_normalizer_sorted_distinct_witness:
  "list_all (\<lambda>s. case time_iso s of None \<Rightarrow> True | Some t \<Rightarrow> december_getTime t \<noteq> None)
     (rev december_showings) \<and>
   (''Movie A'', [''2025-12-03T07:00:00Z'', ''2025-12-23T07:10:00Z'']) \<in>
     set (dedupe_sort_all december_getTime (collect_showings (rev december_showings) [])) \<and>
   distinct [''2025-12-03T07:00:00Z'', ''2025-12-23T07:10:00Z''] \<and>
   sorted (map (\<lambda>s. the (december_getTime s)) [''2025-12-03T07:00:00Z'', ''2025-12-23T07:10:00Z''])"
proof -
  have parse: "\<forall>s \<in> set (rev december_showings). \<forall>t. time_iso s = Some t \<longrightarrow>
      december_getTime t \<noteq> None"
    by (simp add: december_showings_def december_getTime_def)
  have entry: "(''Movie A'', [''2025-12-03T07:00:00Z'', ''2025-12-23T07:10:00Z'']) \<in>
     set (dedupe_sort_all december_getTime (collect_showings (rev december_showings) []))"
    by (simp add: december_showings_def dedupe_sort_all_def sort_by_def compare_times_def
        december_getTime_def dedupe_def js_trim_def is_space_def)
  have shown: "list_all (\<lambda>s. case time_iso s of None \<Rightarrow> True | Some t \<Rightarrow> december_getTime t \<noteq> None)
     (rev december_showings)"
    by (simp add: december_showings_def december_getTime_def)
  from rolling_normalizer_sorted_distinct [OF parse entry] shown entry show ?thesis
    by blast
qed

text \<open>
  Claim C5 fails on the single-query script, which stores the formatted strings and
  sorts them as strings. Two showings of one title, on 3 and on 23 December, come out
  with the later one first, since \<open>''23 December ...''\<close> is below
  \<open>''3 December ...''\<close> in the order of strings. The rolling-window script puts the
  same two records in the order of time.
\<close>

theorem single_query_orders_formatted_strings:
  "getAllShowtimesViaGraphQL example_formatSession (Response 200 None ())
      (\<lambda>cookieHeader. Response 200 None (example_body december_showings)) =
     Inr [(''Movie A'', [''23 December 6:10 pm'', ''3 December 6:00 pm''])] \<and>
   dedupe_sort_all december_getTime (collect_showings (rev december_showings) []) =
     [(''Movie A'', [''2025-12-03T07:00:00Z'', ''2025-12-23T07:10:00Z''])]"
  by (simp add: getAllShowtimesViaGraphQL_def getCookieHeader_def header_entries_def
      example_body_def december_showings_def example_formatSession_def dedupe_sort_strings_def
      dedupe_sort_all_def sort_by_def compare_times_def december_getTime_def
      dedupe_def js_trim_def is_space_def)

subsection \<open>The notifier\<close>

text \<open>
  The notifier of the rolling-window script fails when the webhook URL is unset or
  empty, and posts nothing.
\<close>

theorem rolling_notifier_requires_url:
  "sendNotification None webhook msg = (Inl Webhook_Url_Not_Set, []) \<and>
   sendNotification (Some []) webhook msg = (Inl Webhook_Url_Not_Set, [])"
  by (simp add: sendNotification_def)

text \<open>
  Claim C7 fails on the notifier of the basic script: with the webhook URL unset or
  empty it returns normally, having posted nothing.
\<close>

theorem basic_notifier_silent_without_url:
  "sendNotification_basic None webhook msg = (Inr (), []) \<and>
   sendNotification_basic (Some []) webhook msg = (Inr (), [])"
  by (simp add: sendNotification_basic_def)

subsection \<open>A run whose fetch fails\<close>

lemma getAll_not_primed:
  "primeCookies get_home get_now = Inl e \<Longrightarrow>
   getAllShowtimesRollingMonth getTime get_home get_now post tz start = (Inl e, [])"
  by (simp add: getAllShowtimesRollingMonth_def)

lemma main_fetch_error:
  assumes "fst (getAllShowtimesRollingMonth (w_getTime w) (w_home w) (w_now w) (w_post w)
             (w_tzOffset w) (w_start w)) = Inl e"
  shows "main w = \<lparr>exit_code = 1, store = w_cache w, posts = []\<rparr>"
  using assms by (simp add: main_def)

text \<open>
  The rolling-window script: when priming fails, or when the query of some day fails,
  the run ends with exit code 1, leaves the cache file as it was and posts nothing.
\<close>

theorem rolling_main_fails_closed:
  assumes "(\<exists>e. primeCookies (w_home w) (w_now w) = Inl e) \<or>
           (\<exists>c j e. primeCookies (w_home w) (w_now w) = Inr c \<and> j \<le> DAYS_AHEAD \<and>
              day_result (w_post w) (w_tzOffset w) (w_start w) c j = Inl e)"
  shows "main w = \<lparr>exit_code = 1, store = w_cache w, posts = []\<rparr>"
  using assms
proof
  assume "\<exists>e. primeCookies (w_home w) (w_now w) = Inl e"
  then obtain e where "primeCookies (w_home w) (w_now w) = Inl e" by blast
  from getAll_not_primed [OF this] show ?thesis
    by (intro main_fetch_error [of w e]) simp
next
  assume "\<exists>c j e. primeCookies (w_home w) (w_now w) = Inr c \<and> j \<le> DAYS_AHEAD \<and>
      day_result (w_post w) (w_tzOffset w) (w_start w) c j = Inl e"
  then obtain c j e where c: "primeCookies (w_home w) (w_now w) = Inr c"
    and j: "j \<le> DAYS_AHEAD" "day_result (w_post w) (w_tzOffset w) (w_start w) c j = Inl e"
    by blast
  from first_failing_day [OF j] obtain k e' where
    k: "k \<le> j" "day_result (w_post w) (w_tzOffset w) (w_start w) c k = Inl e'"
       "\<forall>i<k. \<exists>s. day_result (w_post w) (w_tzOffset w) (w_start w) c i = Inr s"
    by blast
  from k(1) j(1) have "k \<le> DAYS_AHEAD" by simp
  with k have "rolling_loop (w_post w) (w_tzOffset w) c 0 (w_start w) [] [] =
      (Inl e', [] @ map (date_of_step (w_tzOffset w) (w_start w)) [0..<Suc k])"
    by (intro rolling_loop_first_failure) (auto simp: addDays_zero)
  then have "fst (getAllShowtimesRollingMonth (w_getTime w) (w_home w) (w_now w) (w_post w)
      (w_tzOffset w) (w_start w)) = Inl e'"
    by (simp add: getAll_primed [OF c])
  then show ?thesis by (rule main_fetch_error)
qed

theorem rolling_main_fails_closed_witness:
  "primeCookies (w_home forbidden_world) (w_now forbidden_world) = Inr ''sid=xyz; waf=1'' \<and>
   (0::nat) \<le> DAYS_AHEAD \<and>
   day_result (w_post forbidden_world) (w_tzOffset forbidden_world) (w_start forbidden_world) ''sid=xyz; waf=1'' 0 =
     Inl (Forbidden ''2025-01-09'') \<and>
   main forbidden_world =
     \<lparr>exit_code = 1, store = Cached [(''Movie A'', [''23 December 6:10 pm''])], posts = []\<rparr>"
proof -
  have p: "primeCookies (w_home forbidden_world) (w_now forbidden_world) = Inr ''sid=xyz; waf=1''"
    using example_primed by (simp add: forbidden_world_def)
  have d: "(0::nat) \<le> DAYS_AHEAD" by simp
  have f: "day_result (w_post forbidden_world) (w_tzOffset forbidden_world) (w_start forbidden_world) ''sid=xyz; waf=1'' 0 =
     Inl (Forbidden ''2025-01-09'')"
    by (simp add: day_result_def fetchShowingsForDate_def forbidden_world_def post_forbidden_def
        example_date_0)
  from p d f have "(\<exists>e. primeCookies (w_home forbidden_world) (w_now forbidden_world) = Inl e) \<or>
     (\<exists>c j e. primeCookies (w_home forbidden_world) (w_now forbidden_world) = Inr c \<and>
        j \<le> DAYS_AHEAD \<and> day_result (w_post forbidden_world) (w_tzOffset forbidden_world) (w_start forbidden_world) c j = Inl e)"
    by blast
  from rolling_main_fails_closed [OF this]
  have "main forbidden_world =
     \<lparr>exit_code = 1, store = Cached [(''Movie A'', [''23 December 6:10 pm''])], posts = []\<rparr>"
    by (simp add: forbidden_world_def)
  with p d f show ?thesis by (intro conjI)
qed

text \<open>
  Claim C1 fails on the single-query script, whose \<^verbatim>\<open>main\<close> catches the error
  of the fetch and goes on with an empty schedule. With a forbidden answer, a stored
  snapshot and a configured webhook, the run ends with exit code 0, overwrites the
  snapshot with the empty schedule and posts a notification that reports every stored
  session as removed.
\<close>

theorem single_main_swallows_fetch_error:
  "getAllShowtimesViaGraphQL (w_formatSession forbidden_world) (w_now forbidden_world [])
      (\<lambda>cookieHeader. w_post forbidden_world 0 cookieHeader []) = Inl (Forbidden []) \<and>
   w_cache forbidden_world = Cached [(''Movie A'', [''23 December 6:10 pm''])] \<and>
   main_single forbidden_world =
     \<lparr>exit_code = 0, store = Cached [],
      posts = [(''https://maker.ifttt.com/trigger/showtimes'',
         \<lparr>value1 = ''No sessions added'',
          value2 = ''SESSIONS REMOVED:<br>'' @ [CHR 0x0A] @
                   ''Movie A: 23 December 6:10 pm<br>'' @ [CHR 0x0A],
          value3 = ''Thursday 9 January 2025 at 11:00 am AEDT''\<rparr>)]\<rparr>"
  by (simp add: main_single_def forbidden_world_def getAllShowtimesViaGraphQL_def
      getCookieHeader_def example_now_showing_def post_forbidden_def header_entries_def
      split_on.simps loadCache_def saveCache_def detectChanges_single_def sendNotification_def
      formatMessage_single_def formatMessage_def sessions_text_def example_formatDateTime_def)

subsection \<open>Two scenarios of the diff\<close>

text \<open>
  With "now" at 9 January 2025, a showing added on 12 January is reported as added and
  nothing as removed.
\<close>

theorem scenario_added_showtime:
  "fst (detectChanges example_getTime (\<lambda>k. example_now)
      (Some [(''Movie A'', [''2025-01-10T10:00:00Z''])])
      [(''Movie A'', [''2025-01-10T10:00:00Z'', ''2025-01-12T10:00:00Z''])] 0) =
   \<lparr>changed = True, isInitial = False, message = None,
    added = Some [(''Movie A'', [''2025-01-12T10:00:00Z''])], removed = Some []\<rparr>"
  by (simp add: detectChanges_def filterPastShowtimes_def isPastShowtime_def example_getTime_def
      example_now_def)

text \<open>
  With "now" at 9 January 2025, a title whose only showing was on 1 January and which
  is gone from the current schedule is not reported: both filtered schedules are empty.
\<close>

theorem scenario_past_showtime_dropped:
  "fst (detectChanges example_getTime (\<lambda>k. example_now)
      (Some [(''Movie B'', [''2025-01-01T10:00:00Z''])]) [] 0) =
   \<lparr>changed = False, isInitial = False, message = None, added = Some [], removed = Some []\<rparr>"
  by (simp add: detectChanges_def filterPastShowtimes_def isPastShowtime_def example_getTime_def
      example_now_def)

subsection \<open>A run whose notification fails\<close>

text \<open>
  The rolling-window script saves the cache after the notification. When the fetch
  succeeds and a change is detected, but the webhook URL is unset or empty or the POST
  fails, the run ends with exit code 1 and the cache file is left as it was.
\<close>

theorem rolling_main_notification_failure:
  assumes fetched: "fst (getAllShowtimesRollingMonth (w_getTime w) (w_home w) (w_now w) (w_post w)
             (w_tzOffset w) (w_start w)) = Inr newData"
      and differs: "changed (fst (detectChanges (w_getTime w) (w_clock w) (loadCache (w_cache w))
             newData 0))"
      and fails: "w_url w = None \<or> w_url w = Some [] \<or>
             (\<exists>url. w_url w = Some url \<and>
                \<not> w_webhook w url
                    (formatMessage (w_formatSession w) (w_formatDateTime w)
                       (fst (detectChanges (w_getTime w) (w_clock w) (loadCache (w_cache w))
                          newData 0))
                       (w_timestamp w)))"
  shows "exit_code (main w) = 1 \<and> store (main w) = w_cache w"
proof -
  let ?msg = "formatMessage (w_formatSession w) (w_formatDateTime w)
      (fst (detectChanges (w_getTime w) (w_clock w) (loadCache (w_cache w)) newData 0))
      (w_timestamp w)"
  from fails have "\<exists>e sent. sendNotification (w_url w) (w_webhook w) ?msg = (Inl e, sent)"
    by (auto simp: sendNotification_def)
  then obtain e sent where "sendNotification (w_url w) (w_webhook w) ?msg = (Inl e, sent)"
    by blast
  with fetched differs show ?thesis
    by (simp add: main_def Let_def)
qed

lemma first_run_fetch:
  "fst (getAllShowtimesRollingMonth (w_getTime first_run_world) (w_home first_run_world)
         (w_now first_run_world) (w_post first_run_world)
         (w_tzOffset first_run_world) (w_start first_run_world)) =
   Inr (dedupe_sort_all example_getTime
      (collect_showings
         (concat (map (day_showings post_ok melbourne_offset example_now ''sid=xyz; waf=1'')
            [0..<Suc DAYS_AHEAD]))
         []))"
proof -
  have "rolling_loop post_ok melbourne_offset ''sid=xyz; waf=1'' 0 example_now [] [] =
     (Inr (collect_showings
        (concat (map (day_showings post_ok melbourne_offset example_now ''sid=xyz; waf=1'')
           [0..<Suc DAYS_AHEAD]))
        []), [] @ map (date_of_step melbourne_offset example_now) [0..<Suc DAYS_AHEAD])"
    by (intro rolling_loop_all_ok)
       (simp_all add: day_result_def fetchShowingsForDate_def post_ok_def example_body_def
          addDays_zero)
  then show ?thesis
    using example_primed
    by (simp add: first_run_world_def getAllShowtimesRollingMonth_def)
qed

theorem rolling_main_notification_failure_witness:
  "fst (getAllShowtimesRollingMonth (w_getTime first_run_world) (w_home first_run_world)
         (w_now first_run_world) (w_post first_run_world)
         (w_tzOffset first_run_world) (w_start first_run_world)) =
     Inr (dedupe_sort_all example_getTime
        (collect_showings
           (concat (map (day_showings post_ok melbourne_offset example_now ''sid=xyz; waf=1'')
            [0..<Suc DAYS_AHEAD]))
           [])) \<and>
   w_url first_run_world = None \<and>
   w_cache first_run_world = No_File \<and>
   exit_code (main first_run_world) = 1 \<and>
   store (main first_run_world) = No_File"
proof -
  let ?new = "dedupe_sort_all example_getTime
        (collect_showings
           (concat (map (day_showings post_ok melbourne_offset example_now ''sid=xyz; waf=1'')
            [0..<Suc DAYS_AHEAD]))
           [])"
  have u: "w_url first_run_world = None" and c: "w_cache first_run_world = No_File"
    by (simp_all add: first_run_world_def)
  have differs: "changed (fst (detectChanges (w_getTime first_run_world) (w_clock first_run_world)
      (loadCache (w_cache first_run_world)) ?new 0))"
    by (simp add: c loadCache_def detectChanges_def)
  from u have fails: "w_url first_run_world = None \<or> w_url first_run_world = Some [] \<or>
      (\<exists>url. w_url first_run_world = Some url \<and>
         \<not> w_webhook first_run_world url
             (formatMessage (w_formatSession first_run_world) (w_formatDateTime first_run_world)
                (fst (detectChanges (w_getTime first_run_world) (w_clock first_run_world)
                   (loadCache (w_cache first_run_world)) ?new 0))
                (w_timestamp first_run_world)))"
    by simp
  from rolling_main_notification_failure [OF first_run_fetch differs fails] first_run_fetch u c
  show ?thesis by simp
qed

end
